(* ===== verification/Leader_Prelude.thy ===== *)
theory Leader_Prelude
  imports Main "HOL-Library.Word" "HOL-Library.Sublist"
begin

text \<open>
  Shared vocabulary of the development: Go's machine integers, durations, the outcome of a
  piece of code that may panic or block on a lock it cannot get, and the rewrite rules that
  carry proofs through chains of such pieces.
\<close>

named_theorems go_defs \<open>unfoldings of the small helpers of the model\<close>

subsection \<open>Machine integers\<close>

text \<open>
  A Go \<open>uint64\<close> is a \<open>64 word\<close>. A signed \<open>int\<close>, \<open>int64\<close> or \<open>time.Duration\<close> is an
  \<open>int\<close> in the 64-bit range; arithmetic on it is reduced by \<open>i64\<close>, the two's complement
  wrap-around, wherever the code computes. \<open>i32\<close> is the conversion \<open>int32(x)\<close>.
\<close>

type_synonym u64 = "64 word"
type_synonym duration = int

abbreviation max_rev :: u64 where "max_rev \<equiv> - 1"

lemma less_max_rev [simp]: "0 < max_rev" "1 < max_rev"
  by code_simp+

definition i64 :: "int \<Rightarrow> int" where
  "i64 x = signed_take_bit 63 x"

definition i32 :: "int \<Rightarrow> int" where
  "i32 x = signed_take_bit 31 x"

definition in_i64 :: "int \<Rightarrow> bool" where
  "in_i64 x \<longleftrightarrow> - (2 ^ 63) \<le> x \<and> x < 2 ^ 63"

lemma i64_in_range [simp]: "in_i64 (i64 x)"
  unfolding in_i64_def i64_def
  using signed_take_bit_int_greater_eq_minus_exp [of 63 x] signed_take_bit_int_less_exp [of 63 x]
  by simp

lemma i64_id: "in_i64 x \<Longrightarrow> i64 x = x"
  unfolding in_i64_def i64_def by (simp add: signed_take_bit_int_eq_self_iff)

lemma i32_id: "- (2 ^ 31) \<le> x \<Longrightarrow> x < 2 ^ 31 \<Longrightarrow> i32 x = x"
  unfolding i32_def by (simp add: signed_take_bit_int_eq_self_iff)

abbreviation Nanosecond :: duration where "Nanosecond \<equiv> 1"
abbreviation Microsecond :: duration where "Microsecond \<equiv> 1000"
abbreviation Millisecond :: duration where "Millisecond \<equiv> 1000000"
abbreviation Second :: duration where "Second \<equiv> 1000000000"

text \<open>The difference of two times is a \<open>Duration\<close> that saturates at the ends of its range.\<close>

definition time_Sub :: "int \<Rightarrow> int \<Rightarrow> duration" where
  "time_Sub t u = max (- (2 ^ 63)) (min (2 ^ 63 - 1) (t - u))"

text \<open>
  Go's integer division truncates towards zero.
\<close>

definition quot :: "int \<Rightarrow> int \<Rightarrow> int" where
  "quot a b = sgn a * sgn b * (\<bar>a\<bar> div \<bar>b\<bar>)"

lemma quot_nonneg: "0 \<le> a \<Longrightarrow> 0 < b \<Longrightarrow> quot a b = a div b"
  by (cases "a = 0") (auto simp: quot_def sgn_if)

subsection \<open>Outcomes\<close>

text \<open>
  Running a piece of Go code ends in one of three ways: it returns, it panics (here: a method
  call on a nil \<open>context.Context\<close> or a failed type assertion), or it blocks for ever on a
  mutex that it holds itself. \<open>and_then\<close> sequences two pieces.
\<close>

datatype 'a outcome = Done (result: 'a) | Blocked | Panicked

fun and_then :: "'a outcome \<Rightarrow> ('a \<Rightarrow> 'b outcome) \<Rightarrow> 'b outcome" where
  "and_then (Done a) f = f a"
| "and_then Blocked f = Blocked"
| "and_then Panicked f = Panicked"

lemma and_then_Done_iff [simp]:
  "and_then m f = Done b \<longleftrightarrow> (\<exists>a. m = Done a \<and> f a = Done b)"
  by (cases m) auto

lemma and_then_assoc: "and_then (and_then m f) g = and_then m (\<lambda>a. and_then (f a) g)"
  by (cases m) auto

lemma and_then_cong [fundef_cong]:
  "m = n \<Longrightarrow> (\<And>a. n = Done a \<Longrightarrow> f a = g a) \<Longrightarrow> and_then m f = and_then n g"
  by (cases n) auto

subsection \<open>Lists and options\<close>

lemma option_case_Some_iff:
  "(case x of None \<Rightarrow> None | Some a \<Rightarrow> f a) = Some b \<longleftrightarrow> (\<exists>a. x = Some a \<and> f a = Some b)"
  by (cases x) auto

lemma sublist_left: "sublist xs ys \<Longrightarrow> sublist xs (ys @ zs)"
  unfolding sublist_def by force

lemma sublist_right: "sublist xs zs \<Longrightarrow> sublist xs (ys @ zs)"
  unfolding sublist_def by (metis append.assoc)

subsection \<open>Transition systems\<close>

inductive reachable :: "('w \<Rightarrow> bool) \<Rightarrow> ('l \<Rightarrow> 'w \<Rightarrow> 'w \<Rightarrow> bool) \<Rightarrow> 'w \<Rightarrow> bool" for init step where
  reachable_init: "init w \<Longrightarrow> reachable init step w"
| reachable_step: "reachable init step w \<Longrightarrow> step l w w' \<Longrightarrow> reachable init step w'"

text \<open>An inductive invariant of a labelled transition system holds in every reachable state.\<close>

locale invariant_system =
  fixes init :: "'w \<Rightarrow> bool" and step :: "'l \<Rightarrow> 'w \<Rightarrow> 'w \<Rightarrow> bool" and inv :: "'w \<Rightarrow> bool"
  assumes inv_init: "init w \<Longrightarrow> inv w"
    and inv_step: "inv w \<Longrightarrow> step l w w' \<Longrightarrow> inv w'"
begin

lemma reachable_inv: "reachable init step w \<Longrightarrow> inv w"
  by (induction rule: reachable.induct) (auto intro: inv_init inv_step)

end

text \<open>
  A forward simulation, under an invariant, of a concrete system by an abstract one: every reachable
  concrete state is related to a reachable abstract state.
\<close>

locale forward_simulation = invariant_system +
  fixes ainit :: "'a \<Rightarrow> bool" and astep :: "'k \<Rightarrow> 'a \<Rightarrow> 'a \<Rightarrow> bool" and rel :: "'w \<Rightarrow> 'a \<Rightarrow> bool"
  assumes sim_init: "init w \<Longrightarrow> \<exists>a. ainit a \<and> rel w a"
    and sim_step: "inv w \<Longrightarrow> rel w a \<Longrightarrow> step l w w' \<Longrightarrow> \<exists>k a'. astep k a a' \<and> rel w' a'"
begin

lemma reachable_sim: "reachable init step w \<Longrightarrow> \<exists>a. reachable ainit astep a \<and> rel w a"
proof (induction rule: reachable.induct)
  case (reachable_init w)
  then show ?case using sim_init reachable.reachable_init by metis
next
  case (reachable_step w l w')
  then obtain a where "reachable ainit astep a" "rel w a" by blast
  then show ?case using sim_step [OF reachable_inv] reachable_step(1,2) reachable.reachable_step by metis
qed

end

end
