(* ===== verification/Go_Strings.thy ===== *)
theory Go_Strings
  imports Leader_Prelude
begin

text \<open>
  What the program uses of Go's \<open>strings\<close>, \<open>strconv\<close>, \<open>fmt\<close> and \<open>time\<close> packages on
  strings. A Go string is a sequence of bytes, here a \<open>string\<close> (a list of 8-bit \<open>char\<close>).
\<close>

subsection \<open>Bytes\<close>

abbreviation byte :: "char \<Rightarrow> int" where
  "byte c \<equiv> of_char c"

definition ascii :: "string \<Rightarrow> bool" where
  "ascii s \<longleftrightarrow> list_all (\<lambda>c. byte c < 128) s"

lemma ascii_append [simp]: "ascii (s @ t) \<longleftrightarrow> ascii s \<and> ascii t"
  by (simp add: ascii_def)

lemma ascii_Nil [simp]: "ascii []"
  by (simp add: ascii_def)

lemma ascii_Cons [simp]: "ascii (c # s) \<longleftrightarrow> byte c < 128 \<and> ascii s"
  by (simp add: ascii_def)

subsection \<open>strings.Contains and strings.ToLower\<close>

definition strings_Contains :: "string \<Rightarrow> string \<Rightarrow> bool" where
  "strings_Contains s sub \<longleftrightarrow> sublist sub s"

definition is_upper :: "char \<Rightarrow> bool" where
  "is_upper c \<longleftrightarrow> 65 \<le> byte c \<and> byte c \<le> 90"

definition to_lower :: "char \<Rightarrow> char" where
  "to_lower c = (if is_upper c then char_of (byte c + 32) else c)"

text \<open>
  \<open>strings.ToLower\<close>, up to the non-ASCII characters of its result: besides A to Z, exactly two
  characters have an ASCII lower case, the Kelvin sign (bytes E2 84 AA, lower case k) and the
  dotted capital I (bytes C4 B0, lower case i). Every other non-ASCII character lowers to a
  non-ASCII one and is kept as it is, which no search for an ASCII pattern can tell apart.
\<close>

fun strings_ToLower :: "string \<Rightarrow> string" where
  "strings_ToLower [] = []"
| "strings_ToLower (c # cs) =
     (if c = CHR 0xE2 \<and> take 2 cs = [CHR 0x84, CHR 0xAA] then CHR ''k'' # strings_ToLower (drop 2 cs)
      else if c = CHR 0xC4 \<and> take 1 cs = [CHR 0xB0] then CHR ''i'' # strings_ToLower (drop 1 cs)
      else to_lower c # strings_ToLower cs)"

lemma ToLower_ascii_append:
  "ascii s \<Longrightarrow> strings_ToLower (s @ t) = map to_lower s @ strings_ToLower t"
  by (induction s) (auto simp: of_char_def)

lemma Contains_ToLower_prefix:
  assumes "ascii s" and "strings_Contains (map to_lower s) p"
  shows "strings_Contains (strings_ToLower (s @ t)) p"
  using assms by (simp add: ToLower_ascii_append strings_Contains_def sublist_left)

subsection \<open>Decimal numbers: strconv.Itoa, strconv.ParseInt, the %d and %v verbs\<close>

definition digit_char :: "int \<Rightarrow> char" where
  "digit_char d = char_of (48 + d)"

function utoa :: "int \<Rightarrow> string" where
  "utoa n = (if n < 10 then [digit_char n] else utoa (n div 10) @ [digit_char (n mod 10)])"
  by pat_completeness auto
termination
  by (relation "measure nat") auto

declare utoa.simps [simp del]

definition Itoa :: "int \<Rightarrow> string" where
  "Itoa i = (if i < 0 then CHR ''-'' # utoa (- i) else utoa i)"

definition is_digit :: "char \<Rightarrow> bool" where
  "is_digit c \<longleftrightarrow> 48 \<le> byte c \<and> byte c \<le> 57"

definition digit_val :: "char \<Rightarrow> int" where
  "digit_val c = byte c - 48"

definition atou :: "string \<Rightarrow> int" where
  "atou s = foldl (\<lambda>n c. 10 * n + digit_val c) 0 s"

text \<open>
  \<open>strconv.ParseInt(s, 10, 64)\<close>: an optional sign, at least one digit, digits only, and a value
  in the 64-bit range; \<open>None\<close> is its error.
\<close>

definition ParseInt :: "string \<Rightarrow> int option" where
  "ParseInt s =
     (let neg = (take 1 s = ''-'');
          ds = (if neg \<or> take 1 s = ''+'' then drop 1 s else s);
          v = (if neg then - atou ds else atou ds)
      in if ds \<noteq> [] \<and> list_all is_digit ds \<and> in_i64 v then Some v else None)"

lemma byte_digit_char [simp]: "0 \<le> d \<Longrightarrow> d < 10 \<Longrightarrow> byte (digit_char d) = 48 + d"
  by (simp add: digit_char_def of_char_mod_256)

lemma is_digit_char [simp]: "0 \<le> d \<Longrightarrow> d < 10 \<Longrightarrow> is_digit (digit_char d)"
  by (simp add: is_digit_def)

lemma digit_val_char [simp]: "0 \<le> d \<Longrightarrow> d < 10 \<Longrightarrow> digit_val (digit_char d) = d"
  by (simp add: digit_val_def)

lemma atou_snoc [simp]: "atou (s @ [c]) = 10 * atou s + digit_val c"
  by (simp add: atou_def)

lemma utoa_props: "0 \<le> n \<Longrightarrow> utoa n \<noteq> [] \<and> list_all is_digit (utoa n) \<and> atou (utoa n) = n"
proof (induction n rule: utoa.induct)
  case (1 n)
  show ?case
  proof (cases "n < 10")
    case True
    with 1 show ?thesis by (simp add: utoa.simps [of n] atou_def)
  next
    case False
    with 1 show ?thesis by (simp add: utoa.simps [of n])
  qed
qed

lemma utoa_nonempty [simp]: "utoa n \<noteq> []"
  by (simp add: utoa.simps [of n])

lemmas utoa_digits [simp] = utoa_props [THEN conjunct2, THEN conjunct1]
lemmas atou_utoa [simp] = utoa_props [THEN conjunct2, THEN conjunct2]

lemma is_digit_neq:
  "is_digit c \<Longrightarrow> c \<noteq> CHR ''-''" "is_digit c \<Longrightarrow> c \<noteq> CHR ''+''"
  by (auto simp: is_digit_def of_char_def)

lemma utoa_no_sign:
  assumes "0 \<le> n"
  shows "take 1 (utoa n) \<noteq> ''-''" "take 1 (utoa n) \<noteq> ''+''"
  using utoa_digits [OF assms] is_digit_neq by (cases "utoa n"; auto)+

lemma ParseInt_Itoa: "in_i64 i \<Longrightarrow> ParseInt (Itoa i) = Some i"
  using utoa_no_sign [of i] by (auto simp: ParseInt_def Itoa_def Let_def)

subsection \<open>time.Duration.String\<close>

text \<open>
  \<open>fmtFrac v prec\<close> is the fraction \<open>v mod 10^prec\<close> with trailing zeros dropped, and nothing at
  all when it is zero; what is left of \<open>v\<close> is \<open>v div 10^prec\<close>.
\<close>

fun fmtFrac_digits :: "int \<Rightarrow> nat \<Rightarrow> bool \<Rightarrow> string \<Rightarrow> string" where
  "fmtFrac_digits v 0 print acc = (if print then CHR ''.'' # acc else acc)"
| "fmtFrac_digits v (Suc p) print acc =
     (let digit = v mod 10; print' = (print \<or> digit \<noteq> 0)
      in fmtFrac_digits (v div 10) p print' (if print' then digit_char digit # acc else acc))"

definition fmtFrac :: "int \<Rightarrow> nat \<Rightarrow> string" where
  "fmtFrac v prec = fmtFrac_digits v prec False []"

definition Duration_String :: "duration \<Rightarrow> string" where
  "Duration_String d =
     (let u = \<bar>d\<bar>;
          body =
            (if u < Second then
               (if u = 0 then ''0s''
                else if u < Microsecond then utoa u @ ''ns''
                else if u < Millisecond then
                  utoa (u div 1000) @ fmtFrac u 3 @ [CHR 0xC2, CHR 0xB5, CHR ''s'']
                else utoa (u div 1000000) @ fmtFrac u 6 @ ''ms'')
             else
               (let secs = u div 1000000000; mins = secs div 60; hours = mins div 60;
                    s = utoa (secs mod 60) @ fmtFrac u 9 @ ''s'';
                    m = (if 0 < mins then utoa (mins mod 60) @ ''m'' else []);
                    h = (if 0 < hours then utoa hours @ ''h'' else [])
                in h @ m @ s))
      in if d < 0 then CHR ''-'' # body else body)"

end
