(* ===== verification/Leader_Errors.thy ===== *)
theory Leader_Errors
  imports Go_Strings
begin

text \<open>
  Errors and their classification: \<open>leader/error.go\<close> and \<open>classifyErrorType\<close> of
  \<open>leader/logger.go\<close>. A Go \<open>error\<close> value is an \<open>error\<close>; the nil error is \<open>None\<close>.
\<close>

subsection \<open>Error values\<close>

datatype sentinel =
    ErrNotLeader | ErrAlreadyStarted | ErrAlreadyStopped | ErrElectionFailed
  | ErrHeartbeatFailed | ErrTokenValidationFailed | ErrInvalidConfig | ErrBucketNotFound
  | ErrPermissionDenied | ErrConnectionLost | ErrTokenInvalid | ErrTokenMismatch

text \<open>The dynamic values that reach \<open>ValidationError.Value\<close>, an \<open>interface{}\<close>.\<close>

datatype any = AnyString string | AnyDuration duration | AnyInt int

text \<open>
  \<open>ErrorString\<close> is \<open>errors.New\<close> (or \<open>fmt.Errorf\<close> without \<open>%w\<close>) of a text; \<open>WrapError p e\<close> is
  \<open>fmt.Errorf("p: %w", e)\<close>, the only shape of wrapping the program uses. \<open>Canceled\<close> and
  \<open>DeadlineExceeded\<close> are the two errors of package \<open>context\<close>. \<open>CustomError t cs ts\<close> is a value of an error
  type from outside the module (a store's, a callback's): its text \<open>t\<close>, the errors \<open>cs\<close> that its \<open>Unwrap\<close>
  method returns, none, one or several, and the targets \<open>ts\<close> that its \<open>Is\<close> method accepts.
\<close>

datatype error =
    Sentinel sentinel
  | Canceled
  | DeadlineExceeded
  | ErrorString string
  | WrapError string error
  | ElectionError string string string "error option"
  | TokenValidationError string string string string "error option"
  | TimeoutError string duration "error option"
  | ValidationError string "any option" string "error option"
  | CustomError string "error list" "error list"

fun sentinel_text :: "sentinel \<Rightarrow> string" where
  "sentinel_text ErrNotLeader = ''not leader''"
| "sentinel_text ErrAlreadyStarted = ''already started''"
| "sentinel_text ErrAlreadyStopped = ''already stopped''"
| "sentinel_text ErrElectionFailed = ''election failed''"
| "sentinel_text ErrHeartbeatFailed = ''heartbeat failed''"
| "sentinel_text ErrTokenValidationFailed = ''token validation failed''"
| "sentinel_text ErrInvalidConfig = ''invalid config''"
| "sentinel_text ErrBucketNotFound = ''bucket not found''"
| "sentinel_text ErrPermissionDenied = ''permission denied''"
| "sentinel_text ErrConnectionLost = ''connection lost''"
| "sentinel_text ErrTokenInvalid = ''fencing token is invalid''"
| "sentinel_text ErrTokenMismatch = ''fencing token mismatch''"

fun fmt_v :: "any \<Rightarrow> string" where
  "fmt_v (AnyString s) = s"
| "fmt_v (AnyDuration d) = Duration_String d"
| "fmt_v (AnyInt i) = Itoa i"

text \<open>The \<open>Error()\<close> methods.\<close>

fun Error :: "error \<Rightarrow> string" where
  "Error (Sentinel s) = sentinel_text s"
| "Error Canceled = ''context canceled''"
| "Error DeadlineExceeded = ''context deadline exceeded''"
| "Error (ErrorString s) = s"
| "Error (WrapError p e) = p @ '': '' @ Error e"
| "Error (ElectionError code inst reason err) =
     ''election error ['' @ code @ '']''
     @ (if inst \<noteq> [] then '' for instance '' @ inst else [])
     @ (if reason \<noteq> [] then '': '' @ reason else [])
     @ (case err of None \<Rightarrow> [] | Some e \<Rightarrow> '': '' @ Error e)"
| "Error (TokenValidationError localTok kvTok leader reason err) =
     ''token validation failed: '' @ reason
     @ (if localTok \<noteq> [] \<and> kvTok \<noteq> [] then '' (local: '' @ localTok @ '', kv: '' @ kvTok @ '')'' else [])
     @ (case err of None \<Rightarrow> [] | Some e \<Rightarrow> '': '' @ Error e)"
| "Error (TimeoutError operation timeout err) =
     (case err of
        Some e \<Rightarrow> ''operation '' @ operation @ '' timed out after '' @ Duration_String timeout @ '': '' @ Error e
      | None \<Rightarrow>
          if operation \<noteq> [] then ''operation '' @ operation @ '' timed out after '' @ Duration_String timeout
          else ''operation timed out after '' @ Duration_String timeout)"
| "Error (ValidationError field val reason err) =
     ''invalid configuration: field '' @ field
     @ (case val of None \<Rightarrow> [] | Some v \<Rightarrow> '' = '' @ fmt_v v)
     @ (if reason \<noteq> [] then '': '' @ reason else [])
     @ (case err of None \<Rightarrow> [] | Some e \<Rightarrow> '': '' @ Error e)"
| "Error (CustomError txt causes targets) = txt"

text \<open>The \<open>Unwrap\<close> methods of the module's own error types and of \<open>fmt.Errorf\<close>'s.\<close>

fun Unwrap :: "error \<Rightarrow> error option" where
  "Unwrap (WrapError p e) = Some e"
| "Unwrap (ElectionError code inst reason err) = err"
| "Unwrap (TokenValidationError localTok kvTok leader reason err) = err"
| "Unwrap (TimeoutError operation timeout err) = err"
| "Unwrap (ValidationError field val reason err) = err"
| "Unwrap _ = None"

text \<open>What \<open>errors.Is\<close> looks at next: the result of \<open>Unwrap() error\<close>, or of \<open>Unwrap() []error\<close>.\<close>

fun unwrapped :: "error \<Rightarrow> error list" where
  "unwrapped (CustomError txt causes targets) = causes"
| "unwrapped err = (case Unwrap err of None \<Rightarrow> [] | Some e \<Rightarrow> [e])"

lemma Unwrap_size [termination_simp]: "Unwrap e = Some e' \<Longrightarrow> size e' < size e"
  by (cases e) auto

lemma unwrapped_size [termination_simp]: "e' \<in> set (unwrapped e) \<Longrightarrow> size e' < size e"
  by (cases e) (auto split: option.splits intro!: le_imp_less_Suc trans_le_add1 size_list_estimation')

definition NewElectionError :: "string \<Rightarrow> string \<Rightarrow> string \<Rightarrow> error option \<Rightarrow> error" where
  "NewElectionError code inst reason err = ElectionError code inst reason err"

definition NewTimeoutError :: "string \<Rightarrow> duration \<Rightarrow> error option \<Rightarrow> error" where
  "NewTimeoutError operation timeout err = TimeoutError operation timeout err"

definition NewValidationError :: "string \<Rightarrow> any \<Rightarrow> string \<Rightarrow> error" where
  "NewValidationError field val reason = ValidationError field (Some val) reason None"

text \<open>\<open>(*TimeoutError).Is\<close>; the module's other error types have no \<open>Is\<close> method.\<close>

fun Is :: "error \<Rightarrow> error \<Rightarrow> bool" where
  "Is (TimeoutError op1 t1 err1) (TimeoutError op2 t2 err2) =
     (if op1 \<noteq> [] \<and> op2 \<noteq> [] then op1 = op2 \<and> t1 = t2 else t1 = t2)"
| "Is (CustomError txt causes targets) target = (target \<in> set targets)"
| "Is _ _ = False"

text \<open>
  \<open>errors.Is\<close>: the error, or one it wraps, is the target or says it is. Comparison of error
  values is identity, which for the package-level errors is equality of constructors; two
  separately built struct errors are different pointers, and only an \<open>Is\<close> method relates them.
\<close>

fun static_error :: "error \<Rightarrow> bool" where
  "static_error (Sentinel s) = True"
| "static_error Canceled = True"
| "static_error DeadlineExceeded = True"
| "static_error _ = False"

fun errors_Is :: "error \<Rightarrow> error \<Rightarrow> bool" where
  "errors_Is err target =
     (static_error target \<and> err = target \<or> Is err target \<or>
      list_ex (\<lambda>e. errors_Is e target) (unwrapped err))"

declare errors_Is.simps [simp del]

subsection \<open>Classification\<close>

definition permanentPatterns :: "string list" where
  "permanentPatterns =
     [''revision mismatch'', ''key not found'', ''permission denied'', ''bucket not found'',
      ''access denied'', ''invalid'', ''authentication'']"

definition transientPatterns :: "string list" where
  "transientPatterns =
     [''timeout'', ''deadline exceeded'', ''connection lost'', ''connection refused'', ''temporary'',
      ''unavailable'', ''network'', ''i/o timeout'', ''connection reset'']"

fun is_TimeoutError :: "error \<Rightarrow> bool" where
  "is_TimeoutError (TimeoutError _ _ _) = True"
| "is_TimeoutError _ = False"

text \<open>The loop over a pattern list.\<close>

definition matches_any :: "string list \<Rightarrow> string \<Rightarrow> bool" where
  "matches_any patterns errMsg = list_ex (strings_Contains errMsg) patterns"

fun IsPermanentError :: "error option \<Rightarrow> bool" where
  "IsPermanentError None = False"
| "IsPermanentError (Some err) =
     (if errors_Is err Canceled then False
      else if is_TimeoutError err then False
      else if errors_Is err DeadlineExceeded then False
      else if matches_any permanentPatterns (strings_ToLower (Error err)) then True
      else if errors_Is err (Sentinel ErrInvalidConfig) then True
      else if errors_Is err (Sentinel ErrPermissionDenied) then True
      else if errors_Is err (Sentinel ErrBucketNotFound) then True
      else False)"

fun IsTransientError :: "error option \<Rightarrow> bool" where
  "IsTransientError None = False"
| "IsTransientError (Some err) =
     (if IsPermanentError (Some err) then False
      else if errors_Is err DeadlineExceeded then True
      else if is_TimeoutError err then True
      else if matches_any transientPatterns (strings_ToLower (Error err)) then True
      else True)"

text \<open>\<open>classifyErrorType\<close> of \<open>logger.go\<close>.\<close>

fun classifyErrorType :: "error option \<Rightarrow> string" where
  "classifyErrorType None = ''none''"
| "classifyErrorType (Some err) =
     (if IsPermanentError (Some err) then ''permanent''
      else if IsTransientError (Some err) then ''transient''
      else if errors_Is err (Sentinel ErrNotLeader) then ''not_leader''
      else if errors_Is err (Sentinel ErrElectionFailed) then ''election_failed''
      else if errors_Is err (Sentinel ErrTokenInvalid) then ''token_invalid''
      else if errors_Is err (Sentinel ErrAlreadyStarted) then ''already_started''
      else if errors_Is err (Sentinel ErrAlreadyStopped) then ''already_stopped''
      else ''unknown'')"

subsection \<open>Texts of error chains\<close>

lemma ToLower_append_ascii_head:
  "byte c < 128 \<Longrightarrow> strings_ToLower (s @ c # t) = strings_ToLower s @ strings_ToLower (c # t)"
proof (induction s rule: strings_ToLower.induct)
  case 1
  then show ?case by simp
next
  case (2 d ds)
  from "2.prems" have c: "c \<noteq> CHR 0x84" "c \<noteq> CHR 0xAA" "c \<noteq> CHR 0xB0"
    by (auto simp: of_char_def)
  consider "ds = []" | x where "ds = [x]" | x y zs where "ds = x # y # zs"
    by (metis list.exhaust)
  then show ?case
    using 2 c by cases auto
qed

lemma Error_Unwrap: "Unwrap err = Some e \<Longrightarrow> \<exists>p. Error err = p @ '': '' @ Error e"
  by (cases err) (auto; metis append.assoc)+

lemma Contains_ToLower_cause:
  assumes "strings_Contains (strings_ToLower (Error e)) p" and "Unwrap err = Some e"
  shows "strings_Contains (strings_ToLower (Error err)) p"
proof -
  obtain q where q: "Error err = q @ CHR '':'' # CHR '' '' # Error e"
    using Error_Unwrap [OF assms(2)] by auto
  have "strings_ToLower (Error err) =
      strings_ToLower q @ [CHR '':'', CHR '' ''] @ strings_ToLower (Error e)"
    unfolding q by (subst ToLower_append_ascii_head) (simp_all add: to_lower_def is_upper_def)
  then show ?thesis
    using assms(1) by (simp add: strings_Contains_def sublist_right del: append_Cons)
qed

text \<open>The errors that the module and the standard library build, from causes of the same kind.\<close>

fun library_error :: "error \<Rightarrow> bool" where
  "library_error (CustomError txt causes targets) = False"
| "library_error (WrapError p e) = library_error e"
| "library_error (ElectionError code inst reason err) = pred_option library_error err"
| "library_error (TokenValidationError localTok kvTok leader reason err) = pred_option library_error err"
| "library_error (TimeoutError operation timeout err) = pred_option library_error err"
| "library_error (ValidationError field val reason err) = pred_option library_error err"
| "library_error err = True"

lemma library_unwrapped:
  "library_error err \<Longrightarrow> e \<in> set (unwrapped err) \<Longrightarrow> Unwrap err = Some e \<and> library_error e"
  by (cases err) (auto split: option.splits)

lemma errors_Is_text:
  "errors_Is err (Sentinel s) \<Longrightarrow> library_error err \<Longrightarrow>
     strings_Contains (strings_ToLower (Error err)) (strings_ToLower (sentinel_text s))"
proof (induction err "Sentinel s" rule: errors_Is.induct)
  case (1 err)
  from "1.prems" consider "err = Sentinel s" | e where "e \<in> set (unwrapped err)" "errors_Is e (Sentinel s)"
    by (subst (asm) errors_Is.simps) (auto simp: list_ex_iff elim: Is.elims)
  then show ?case
  proof cases
    case 1
    then show ?thesis by (simp add: strings_Contains_def)
  next
    case 2
    then show ?thesis using "1.hyps" "1.prems"(2) Contains_ToLower_cause library_unwrapped by blast
  qed
qed

lemma config_sentinels_permanent:
  assumes "errors_Is err (Sentinel s)" and "s \<in> {ErrInvalidConfig, ErrPermissionDenied, ErrBucketNotFound}"
    and "library_error err"
  shows "matches_any permanentPatterns (strings_ToLower (Error err))"
proof -
  have "\<exists>p \<in> set permanentPatterns. strings_Contains (strings_ToLower (sentinel_text s)) p"
    using assms(2) by (elim insertE emptyE; hypsubst; code_simp)
  then show ?thesis
    using errors_Is_text [OF assms(1,3)]
    by (auto simp: matches_any_def list_ex_iff strings_Contains_def intro: sublist_order.order_trans)
qed

subsection \<open>What the classification decides\<close>

lemma permanent_iff:
  "library_error err \<Longrightarrow> IsPermanentError (Some err) \<longleftrightarrow>
     \<not> errors_Is err Canceled \<and> \<not> is_TimeoutError err \<and> \<not> errors_Is err DeadlineExceeded \<and>
     matches_any permanentPatterns (strings_ToLower (Error err))"
  using config_sentinels_permanent [of err] by auto

lemma errors_Is_static_step:
  "Unwrap err = Some e \<Longrightarrow> static_error target \<Longrightarrow> errors_Is err target \<longleftrightarrow> errors_Is e target"
  by (subst errors_Is.simps) (cases err; auto elim: Is.elims)

lemma matches_wrapped:
  "matches_any permanentPatterns (strings_ToLower (Error err)) \<Longrightarrow>
     matches_any permanentPatterns (strings_ToLower (Error (WrapError p err)))"
  using Contains_ToLower_cause [of err _ "WrapError p err"] by (auto simp: matches_any_def list_ex_iff)

lemma permanent_wrapped: "IsPermanentError (Some err) \<Longrightarrow> IsPermanentError (Some (WrapError p err))"
  using matches_wrapped [of err p] errors_Is_static_step [of "WrapError p err" err]
  by (auto split: if_splits)

lemma errors_Is_custom:
  "errors_Is (CustomError txt causes targets) (Sentinel s) \<longleftrightarrow>
     Sentinel s \<in> set targets \<or> (\<exists>c \<in> set causes. errors_Is c (Sentinel s))"
  by (subst errors_Is.simps) (auto simp: list_ex_iff)

text \<open>
  C25: An error that the module or the standard library built is permanent exactly when it is no
  cancellation, no timeout and no exceeded deadline, and its lower-case text contains one of the seven
  permanent patterns: on these errors the three final \<open>errors.Is\<close> tests of \<open>IsPermanentError\<close> decide nothing
  more, because the text of such an error always contains the text of what it wraps. Wrapping a permanent
  error, whoever built it, keeps it permanent. An error of a foreign type whose text says nothing is
  permanent exactly through these tests: when its \<open>Is\<close> method or one of its causes answers to invalid
  configuration, permission denied or bucket not found, and neither to a cancellation nor to a deadline.
\<close>

theorem IsPermanentError_iff:
  "(library_error err \<longrightarrow> (IsPermanentError (Some err) \<longleftrightarrow>
      \<not> errors_Is err Canceled \<and> \<not> is_TimeoutError err \<and> \<not> errors_Is err DeadlineExceeded \<and>
      matches_any permanentPatterns (strings_ToLower (Error err)))) \<and>
   (IsPermanentError (Some err) \<longrightarrow> IsPermanentError (Some (WrapError p err))) \<and>
   (\<not> matches_any permanentPatterns (strings_ToLower txt) \<longrightarrow>
      (IsPermanentError (Some (CustomError txt causes targets)) \<longleftrightarrow>
        \<not> errors_Is (CustomError txt causes targets) Canceled \<and>
        \<not> errors_Is (CustomError txt causes targets) DeadlineExceeded \<and>
        (\<exists>s \<in> {ErrInvalidConfig, ErrPermissionDenied, ErrBucketNotFound}.
           Sentinel s \<in> set targets \<or> (\<exists>c \<in> set causes. errors_Is c (Sentinel s)))))"
proof (intro conjI impI)
  assume "library_error err"
  then show "IsPermanentError (Some err) \<longleftrightarrow>
      \<not> errors_Is err Canceled \<and> \<not> is_TimeoutError err \<and> \<not> errors_Is err DeadlineExceeded \<and>
      matches_any permanentPatterns (strings_ToLower (Error err))"
    by (rule permanent_iff)
next
  assume "IsPermanentError (Some err)"
  then show "IsPermanentError (Some (WrapError p err))" by (rule permanent_wrapped)
next
  assume "\<not> matches_any permanentPatterns (strings_ToLower txt)"
  then show "IsPermanentError (Some (CustomError txt causes targets)) \<longleftrightarrow>
        \<not> errors_Is (CustomError txt causes targets) Canceled \<and>
        \<not> errors_Is (CustomError txt causes targets) DeadlineExceeded \<and>
        (\<exists>s \<in> {ErrInvalidConfig, ErrPermissionDenied, ErrBucketNotFound}.
           Sentinel s \<in> set targets \<or> (\<exists>c \<in> set causes. errors_Is c (Sentinel s)))"
    by (simp add: errors_Is_custom)
qed

theorem IsPermanentError_iff_witness:
  "IsPermanentError (Some (WrapError ''create'' (ErrorString ''Permission Denied''))) \<and>
   IsPermanentError (Some (CustomError ''403'' [Sentinel ErrPermissionDenied] []))"
proof -
  have msg: "matches_any permanentPatterns (strings_ToLower ''Permission Denied'')"
      "\<not> matches_any permanentPatterns (strings_ToLower ''403'')" by code_simp+
  have tests: "\<not> errors_Is (ErrorString ''Permission Denied'') Canceled" "\<not> errors_Is (ErrorString ''Permission Denied'') DeadlineExceeded"
      "\<not> errors_Is (CustomError ''403'' [Sentinel ErrPermissionDenied] []) Canceled" "\<not> errors_Is (CustomError ''403'' [Sentinel ErrPermissionDenied] []) DeadlineExceeded"
      "errors_Is (Sentinel ErrPermissionDenied) (Sentinel ErrPermissionDenied)"
    by code_simp+
  show ?thesis
    using IsPermanentError_iff [of "ErrorString ''Permission Denied''" "''create''" "''403''" "[Sentinel ErrPermissionDenied]" "[]"] msg tests
    by (simp del: IsPermanentError.simps)
qed

text \<open>
  Every non-nil error is either permanent or transient, never both, so the label
  \<open>classifyErrorType\<close> computes for logs and metrics is one of none, permanent and transient: the
  labels not_leader, election_failed, token_invalid, already_started, already_stopped and
  unknown are never produced.
\<close>

theorem classifyErrorType_values:
  "classifyErrorType err =
     (case err of None \<Rightarrow> ''none'' | Some e \<Rightarrow> if IsPermanentError err then ''permanent'' else ''transient'')"
  by (cases err) (auto split: if_splits)

lemma IsTransientError_iff: "IsTransientError (Some err) \<longleftrightarrow> \<not> IsPermanentError (Some err)"
  by auto

text \<open>The errors the other components build, as the classification sees them.\<close>

lemma TimeoutError_not_permanent [simp]:
  "\<not> IsPermanentError (Some (NewTimeoutError operation timeout err))"
  by (simp add: NewTimeoutError_def)

lemma permanent_prefix:
  assumes "Error err = s @ t" and "ascii s" and "matches_any permanentPatterns (map to_lower s)"
  shows "matches_any permanentPatterns (strings_ToLower (Error err))"
  using assms by (auto simp: matches_any_def list_ex_iff intro: Contains_ToLower_prefix)

lemma errors_Is_static_leaf:
  "library_error err \<Longrightarrow> Unwrap err = None \<Longrightarrow> static_error target \<Longrightarrow> errors_Is err target \<longleftrightarrow> err = target"
  by (subst errors_Is.simps) (cases err; auto elim: Is.elims)

text \<open>From here on the classification is used through these facts only.\<close>

declare IsPermanentError.simps(2) [simp del] IsTransientError.simps(2) [simp del] classifyErrorType.simps(2) [simp del]

end
