(* ===== verification/Leader_Config.thy ===== *)
theory Leader_Config
  imports Leader_Errors
begin

text \<open>
  The configuration of an election: \<open>ElectionConfig\<close> and \<open>StopOptions\<close> of
  \<open>leader/election.go\<close> and \<open>validateConfig\<close> of \<open>leader/validation.go\<close>. The optional interface
  values \<open>Metrics\<close> and \<open>HealthChecker\<close> are recorded as set or nil; the logger is not modelled.
\<close>

record ElectionConfig =
  Bucket :: string
  Group :: string
  InstanceID :: string
  TTL :: duration
  HeartbeatInterval :: duration
  ValidationInterval :: duration
  DisconnectGracePeriod :: duration
  Metrics :: bool
  HealthChecker :: bool
  MaxConsecutiveFailures :: int
  Priority :: int
  AllowPriorityTakeover :: bool

record StopOptions =
  DeleteKey :: bool
  WaitForDemote :: bool
  Timeout :: duration

text \<open>The integer fields of a configuration are 64-bit values.\<close>

definition wf_config :: "ElectionConfig \<Rightarrow> bool" where
  "wf_config cfg \<longleftrightarrow>
     in_i64 (TTL cfg) \<and> in_i64 (HeartbeatInterval cfg) \<and> in_i64 (ValidationInterval cfg) \<and>
     in_i64 (DisconnectGracePeriod cfg) \<and> in_i64 (MaxConsecutiveFailures cfg) \<and> in_i64 (Priority cfg)"

definition validateConfig :: "ElectionConfig \<Rightarrow> error option" where
  "validateConfig cfg =
     (if Bucket cfg = [] then
        Some (NewValidationError ''Bucket'' (AnyString (Bucket cfg)) ''bucket name is required'')
      else if Group cfg = [] then
        Some (NewValidationError ''Group'' (AnyString (Group cfg)) ''group name is required'')
      else if InstanceID cfg = [] then
        Some (NewValidationError ''InstanceID'' (AnyString (InstanceID cfg)) ''instance ID is required'')
      else if TTL cfg \<le> 0 then
        Some (NewValidationError ''TTL'' (AnyDuration (TTL cfg)) ''TTL must be positive'')
      else if HeartbeatInterval cfg \<le> 0 then
        Some (NewValidationError ''HeartbeatInterval'' (AnyDuration (HeartbeatInterval cfg))
                ''heartbeat interval must be positive'')
      else
        let minTTL = i64 (HeartbeatInterval cfg * 3) in
        if TTL cfg < minTTL then
          Some (NewValidationError ''TTL'' (AnyDuration (TTL cfg))
                  (''TTL ('' @ Duration_String (TTL cfg) @ '') must be at least 3x HeartbeatInterval (''
                   @ Duration_String (HeartbeatInterval cfg) @ ''), minimum '' @ Duration_String minTTL))
        else if ValidationInterval cfg > 0 \<and> ValidationInterval cfg < HeartbeatInterval cfg then
          Some (NewValidationError ''ValidationInterval'' (AnyDuration (ValidationInterval cfg))
                  (''validation interval ('' @ Duration_String (ValidationInterval cfg)
                   @ '') should be >= HeartbeatInterval ('' @ Duration_String (HeartbeatInterval cfg) @ '')''))
        else
          let minGracePeriod = i64 (HeartbeatInterval cfg * 2) in
          if DisconnectGracePeriod cfg > 0 \<and> DisconnectGracePeriod cfg < minGracePeriod then
            Some (NewValidationError ''DisconnectGracePeriod'' (AnyDuration (DisconnectGracePeriod cfg))
                    (''disconnect grace period ('' @ Duration_String (DisconnectGracePeriod cfg)
                     @ '') should be >= 2x HeartbeatInterval ('' @ Duration_String (HeartbeatInterval cfg)
                     @ ''), minimum '' @ Duration_String minGracePeriod))
          else if MaxConsecutiveFailures cfg < 0 then
            Some (NewValidationError ''MaxConsecutiveFailures'' (AnyInt (MaxConsecutiveFailures cfg)) ''must be >= 0'')
          else if AllowPriorityTakeover cfg \<and> Priority cfg \<le> 0 then
            Some (NewValidationError ''Priority'' (AnyInt (Priority cfg))
                    ''priority must be > 0 when AllowPriorityTakeover is true'')
          else None)"

text \<open>A configuration used in witnesses: the one of \<open>cmd/demo/main.go\<close>.\<close>

definition demo_config :: "string \<Rightarrow> ElectionConfig" where
  "demo_config instanceID =
     \<lparr>Bucket = ''leaders'', Group = ''demo-group'', InstanceID = instanceID, TTL = 10 * Second,
      HeartbeatInterval = 1 * Second, ValidationInterval = 5 * Second, DisconnectGracePeriod = 0,
      Metrics = False, HealthChecker = False, MaxConsecutiveFailures = 0, Priority = 0,
      AllowPriorityTakeover = False\<rparr>"

lemma demo_config_simps [simp]:
  "Bucket (demo_config i) = ''leaders''" "Group (demo_config i) = ''demo-group''"
  "InstanceID (demo_config i) = i" "TTL (demo_config i) = 10 * Second"
  "HeartbeatInterval (demo_config i) = Second" "ValidationInterval (demo_config i) = 5 * Second"
  "DisconnectGracePeriod (demo_config i) = 0" "\<not> Metrics (demo_config i)"
  "\<not> HealthChecker (demo_config i)" "MaxConsecutiveFailures (demo_config i) = 0"
  "Priority (demo_config i) = 0" "\<not> AllowPriorityTakeover (demo_config i)"
  by (simp_all add: demo_config_def)

lemma validateConfig_None_iff:
  "validateConfig cfg = None \<longleftrightarrow>
     Bucket cfg \<noteq> [] \<and> Group cfg \<noteq> [] \<and> InstanceID cfg \<noteq> [] \<and>
     0 < TTL cfg \<and> 0 < HeartbeatInterval cfg \<and> i64 (HeartbeatInterval cfg * 3) \<le> TTL cfg \<and>
     (0 < ValidationInterval cfg \<longrightarrow> HeartbeatInterval cfg \<le> ValidationInterval cfg) \<and>
     (0 < DisconnectGracePeriod cfg \<longrightarrow> i64 (HeartbeatInterval cfg * 2) \<le> DisconnectGracePeriod cfg) \<and>
     0 \<le> MaxConsecutiveFailures cfg \<and> (AllowPriorityTakeover cfg \<longrightarrow> 0 < Priority cfg)"
  unfolding validateConfig_def Let_def by auto

lemma demo_config_valid: "i \<noteq> [] \<Longrightarrow> validateConfig (demo_config i) = None"
  by (simp add: validateConfig_None_iff i64_def)



text \<open>
  Outside that range the product wraps around and the rule is not enforced: a heartbeat of
  2 to the 62 nanoseconds is accepted together with a TTL of one nanosecond.
\<close>

theorem validateConfig_overflow:
  "\<exists>cfg. wf_config cfg \<and> validateConfig cfg = None \<and> TTL cfg < HeartbeatInterval cfg"
  by (rule exI [of _ "(demo_config ''a'')\<lparr>TTL := 1, HeartbeatInterval := 2 ^ 62, ValidationInterval := 0\<rparr>"])
    (simp add: validateConfig_None_iff wf_config_def in_i64_def i64_def)

text \<open>
  A rejected configuration gives an error that the classification calls permanent, whatever
  the offending value is, so nothing retries it.
\<close>

theorem validateConfig_error_permanent:
  assumes "validateConfig cfg = Some e"
  shows "IsPermanentError (Some e)"
proof -
  obtain f v r where e: "e = ValidationError f (Some v) r None"
    using assms unfolding validateConfig_def NewValidationError_def Let_def
    by (auto split: if_splits)
  have "matches_any permanentPatterns (strings_ToLower (Error e))"
    unfolding e by (rule permanent_prefix [of _ "''invalid configuration: field ''"]) (simp, code_simp, code_simp)
  then show ?thesis
    unfolding e by (simp add: permanent_iff errors_Is_static_leaf del: IsPermanentError.simps)
qed

theorem validateConfig_error_permanent_witness:
  "IsPermanentError (Some (NewValidationError ''TTL'' (AnyDuration 0) ''TTL must be positive''))"
  by (rule validateConfig_error_permanent [of "(demo_config ''a'')\<lparr>TTL := 0\<rparr>"])
    (simp add: validateConfig_def)

end
