(* ===== verification/Go_Json.thy ===== *)
theory Go_Json
  imports Go_Strings
begin

text \<open>
  What the program uses of \<open>encoding/json\<close> and \<open>unicode/utf8\<close>: \<open>json.Marshal\<close> of the value
  stored under the leadership key and \<open>json.Unmarshal\<close> of a stored value, into the struct
  \<open>leadershipPayload\<close> of \<open>leader/kv_election.go\<close> and into a \<open>map[string]interface{}\<close>. Text is
  bytes: quoting and unquoting work on UTF-8, with Go's treatment of malformed sequences.
\<close>

subsection \<open>UTF-8\<close>

definition cont :: "char \<Rightarrow> bool" where
  "cont c \<longleftrightarrow> 128 \<le> byte c \<and> byte c \<le> 191"

text \<open>
  \<open>utf8.DecodeRune\<close>: the code point and the number of bytes it takes; a malformed sequence is
  the replacement character U+FFFD of width 1.
\<close>

definition DecodeRune :: "string \<Rightarrow> int \<times> nat" where
  "DecodeRune s =
     (case s of
        [] \<Rightarrow> (0xFFFD, 0)
      | b0 # s1 \<Rightarrow>
          if byte b0 < 0x80 then (byte b0, 1)
          else if 0xC2 \<le> byte b0 \<and> byte b0 \<le> 0xDF then
            (case s1 of
               b1 # _ \<Rightarrow> if cont b1 then (64 * (byte b0 - 0xC0) + (byte b1 - 0x80), 2) else (0xFFFD, 1)
             | _ \<Rightarrow> (0xFFFD, 1))
          else if 0xE0 \<le> byte b0 \<and> byte b0 \<le> 0xEF then
            (case s1 of
               b1 # b2 # _ \<Rightarrow>
                 if (if byte b0 = 0xE0 then 0xA0 else 0x80) \<le> byte b1 \<and>
                    byte b1 \<le> (if byte b0 = 0xED then 0x9F else 0xBF) \<and> cont b2
                 then (4096 * (byte b0 - 0xE0) + 64 * (byte b1 - 0x80) + (byte b2 - 0x80), 3)
                 else (0xFFFD, 1)
             | _ \<Rightarrow> (0xFFFD, 1))
          else if 0xF0 \<le> byte b0 \<and> byte b0 \<le> 0xF4 then
            (case s1 of
               b1 # b2 # b3 # _ \<Rightarrow>
                 if (if byte b0 = 0xF0 then 0x90 else 0x80) \<le> byte b1 \<and>
                    byte b1 \<le> (if byte b0 = 0xF4 then 0x8F else 0xBF) \<and> cont b2 \<and> cont b3
                 then (262144 * (byte b0 - 0xF0) + 4096 * (byte b1 - 0x80)
                       + 64 * (byte b2 - 0x80) + (byte b3 - 0x80), 4)
                 else (0xFFFD, 1)
             | _ \<Rightarrow> (0xFFFD, 1))
          else (0xFFFD, 1))"

definition EncodeRune :: "int \<Rightarrow> string" where
  "EncodeRune r =
     (if r < 0x80 then [char_of r]
      else if r < 0x800 then [char_of (0xC0 + r div 64), char_of (0x80 + r mod 64)]
      else if r < 0x10000 then
        [char_of (0xE0 + r div 4096), char_of (0x80 + r div 64 mod 64), char_of (0x80 + r mod 64)]
      else
        [char_of (0xF0 + r div 262144), char_of (0x80 + r div 4096 mod 64),
         char_of (0x80 + r div 64 mod 64), char_of (0x80 + r mod 64)])"

abbreviation replacement :: string where
  "replacement \<equiv> [CHR 0xEF, CHR 0xBF, CHR 0xBD]"

text \<open>A string every character of which decodes without the replacement: \<open>utf8.ValidString\<close>.\<close>

function valid_utf8 :: "string \<Rightarrow> bool" where
  "valid_utf8 [] = True"
| "valid_utf8 (c # cs) =
     (if byte c < 0x80 then valid_utf8 cs
      else (let n = snd (DecodeRune (c # cs)) in 1 < n \<and> valid_utf8 (drop (n - 1) cs)))"
  by pat_completeness auto
termination
  by (relation "measure length") auto

subsection \<open>Quoting: the string encoder of json.Marshal\<close>

definition hex_digit :: "int \<Rightarrow> char" where
  "hex_digit d = (if d < 10 then char_of (48 + d) else char_of (87 + d))"

abbreviation backslash :: char where "backslash \<equiv> CHR 0x5C"
abbreviation quote_char :: char where "quote_char \<equiv> CHR 0x22"

definition escape_byte :: "char \<Rightarrow> string" where
  "escape_byte c =
     (if c = quote_char \<or> c = backslash then [backslash, c]
      else if c = CHR 0x08 then [backslash, CHR ''b'']
      else if c = CHR 0x0C then [backslash, CHR ''f'']
      else if c = CHR 0x0A then [backslash, CHR ''n'']
      else if c = CHR 0x0D then [backslash, CHR ''r'']
      else if c = CHR 0x09 then [backslash, CHR ''t'']
      else if byte c < 0x20 \<or> c = CHR ''<'' \<or> c = CHR ''>'' \<or> c = CHR ''&'' then
        [backslash, CHR ''u'', CHR ''0'', CHR ''0'', hex_digit (byte c div 16), hex_digit (byte c mod 16)]
      else [c])"

function escape :: "string \<Rightarrow> string" where
  "escape [] = []"
| "escape (c # cs) =
     (if byte c < 0x80 then escape_byte c @ escape cs
      else (let (r, n) = DecodeRune (c # cs) in
        if n \<le> 1 then [backslash, CHR ''u'', CHR ''f'', CHR ''f'', CHR ''f'', CHR ''d''] @ escape cs
        else if r = 0x2028 \<or> r = 0x2029 then
          [backslash, CHR ''u'', CHR ''2'', CHR ''0'', CHR ''2'', hex_digit (r mod 16)] @ escape (drop (n - 1) cs)
        else take n (c # cs) @ escape (drop (n - 1) cs)))"
  by pat_completeness auto
termination
  by (relation "measure length") auto

definition quote :: "string \<Rightarrow> string" where
  "quote s = quote_char # escape s @ [quote_char]"

subsection \<open>Unquoting: string literals as json.Unmarshal reads them\<close>

definition hex_val :: "char \<Rightarrow> int option" where
  "hex_val c =
     (if is_digit c then Some (byte c - 48)
      else if 97 \<le> byte c \<and> byte c \<le> 102 then Some (byte c - 87)
      else if 65 \<le> byte c \<and> byte c \<le> 70 then Some (byte c - 55)
      else None)"

definition getu4 :: "string \<Rightarrow> int option" where
  "getu4 s =
     (case s of
        a # b # c # d # _ \<Rightarrow>
          (case (hex_val a, hex_val b, hex_val c, hex_val d) of
             (Some w, Some x, Some y, Some z) \<Rightarrow> Some (4096 * w + 256 * x + 16 * y + z)
           | _ \<Rightarrow> None)
      | _ \<Rightarrow> None)"

text \<open>The low surrogate after a high one: a second escape right behind the first.\<close>

definition second_surrogate :: "string \<Rightarrow> int option" where
  "second_surrogate s = (if take 2 s = [backslash, CHR ''u''] then getu4 (drop 2 s) else None)"

definition simple_escape :: "char \<Rightarrow> char option" where
  "simple_escape e =
     (if e = quote_char \<or> e = backslash \<or> e = CHR ''/'' then Some e
      else if e = CHR ''b'' then Some (CHR 0x08)
      else if e = CHR ''f'' then Some (CHR 0x0C)
      else if e = CHR ''n'' then Some (CHR 0x0A)
      else if e = CHR ''r'' then Some (CHR 0x0D)
      else if e = CHR ''t'' then Some (CHR 0x09)
      else None)"

definition emit :: "string \<Rightarrow> (string \<times> string) option \<Rightarrow> (string \<times> string) option" where
  "emit t r = map_option (\<lambda>(s, rest). (t @ s, rest)) r"

text \<open>
  \<open>unquote\<close> reads the characters of a literal after its opening quote, up to the closing one,
  and returns the decoded text and the input behind the literal.
\<close>

function unquote :: "string \<Rightarrow> (string \<times> string) option" where
  "unquote [] = None"
| "unquote (c # cs) =
     (if c = quote_char then Some ([], cs)
      else if c = backslash then
        (case cs of
           [] \<Rightarrow> None
         | e # ds \<Rightarrow>
             (case simple_escape e of
                Some x \<Rightarrow> emit [x] (unquote ds)
              | None \<Rightarrow>
                  if e = CHR ''u'' then
                    (case getu4 ds of
                       None \<Rightarrow> None
                     | Some r \<Rightarrow>
                         if 0xD800 \<le> r \<and> r < 0xE000 then
                           (case second_surrogate (drop 4 ds) of
                              Some r2 \<Rightarrow>
                                if r < 0xDC00 \<and> 0xDC00 \<le> r2 \<and> r2 < 0xE000
                                then emit (EncodeRune (0x10000 + 1024 * (r - 0xD800) + (r2 - 0xDC00)))
                                       (unquote (drop 10 ds))
                                else emit replacement (unquote (drop 4 ds))
                            | None \<Rightarrow> emit replacement (unquote (drop 4 ds)))
                         else emit (EncodeRune r) (unquote (drop 4 ds)))
                  else None))
      else if byte c < 0x20 then None
      else if byte c < 0x80 then emit [c] (unquote cs)
      else (let n = snd (DecodeRune (c # cs)) in
        if n \<le> 1 then emit replacement (unquote cs)
        else emit (take n (c # cs)) (unquote (drop (n - 1) cs))))"
  by pat_completeness auto
termination
  by (relation "measure length") auto

lemma emit_Some_iff [simp]: "emit t r = Some (s, rest) \<longleftrightarrow> (\<exists>s'. r = Some (s', rest) \<and> s = t @ s')"
  by (cases r) (auto simp: emit_def)

lemma emit_simps [simp]: "emit t (Some (s, rest)) = Some (t @ s, rest)" "emit t None = None"
  by (simp_all add: emit_def)

lemma unquote_shorter: "unquote s = Some (t, rest) \<Longrightarrow> length rest < length s"
  by (induction s arbitrary: t rest rule: unquote.induct)
    (fastforce split: if_splits option.splits list.splits simp: Let_def)+

subsection \<open>Values and their syntax\<close>

datatype json =
    JNull | JBool bool | JNum string | JStr string
  | JArr "json list" | JObj "(string \<times> json) list"

datatype token =
    TLBrace | TRBrace | TLBrack | TRBrack | TColon | TComma
  | TStr string | TNum string | TBool bool | TNull

text \<open>
  A number literal: an optional minus, an integer part without leading zeros, an optional
  fraction and an optional exponent.
\<close>

definition digits1 :: "string \<Rightarrow> (string \<times> string) option" where
  "digits1 s = (let d = takeWhile is_digit s in if d = [] then None else Some (d, dropWhile is_digit s))"

definition lex_int :: "string \<Rightarrow> (string \<times> string) option" where
  "lex_int s = (if take 1 s = ''0'' then Some (''0'', drop 1 s) else digits1 s)"

definition lex_frac :: "string \<Rightarrow> (string \<times> string) option" where
  "lex_frac s =
     (if take 1 s = ''.''
      then map_option (\<lambda>(d, rest). (CHR ''.'' # d, rest)) (digits1 (drop 1 s))
      else Some ([], s))"

definition lex_exp :: "string \<Rightarrow> (string \<times> string) option" where
  "lex_exp s =
     (if take 1 s = ''e'' \<or> take 1 s = ''E'' then
        (let t = drop 1 s; sign = (if take 1 t = ''+'' \<or> take 1 t = ''-'' then take 1 t else [])
         in map_option (\<lambda>(d, rest). (take 1 s @ sign @ d, rest)) (digits1 (drop (length sign) t)))
      else Some ([], s))"

definition lex_number :: "string \<Rightarrow> (string \<times> string) option" where
  "lex_number s =
     (let sign = (if take 1 s = ''-'' then ''-'' else []) in
      case lex_int (drop (length sign) s) of
        None \<Rightarrow> None
      | Some (i, s1) \<Rightarrow>
          (case lex_frac s1 of
             None \<Rightarrow> None
           | Some (f, s2) \<Rightarrow>
               (case lex_exp s2 of
                  None \<Rightarrow> None
                | Some (x, rest) \<Rightarrow> Some (sign @ i @ f @ x, rest))))"

definition is_space :: "char \<Rightarrow> bool" where
  "is_space c \<longleftrightarrow> c = CHR '' '' \<or> c = CHR 0x09 \<or> c = CHR 0x0A \<or> c = CHR 0x0D"

definition punct :: "char \<Rightarrow> token option" where
  "punct c =
     (if c = CHR ''{'' then Some TLBrace else if c = CHR ''}'' then Some TRBrace
      else if c = CHR ''['' then Some TLBrack else if c = CHR '']'' then Some TRBrack
      else if c = CHR '':'' then Some TColon else if c = CHR '','' then Some TComma
      else None)"

lemma digits1_shorter: "digits1 s = Some (d, rest) \<Longrightarrow> length rest < length s"
  by (auto simp: digits1_def Let_def split: if_splits)
    (metis append_Nil length_dropWhile_le linorder_neqE_nat not_le takeWhile_dropWhile_id
       length_append length_0_conv less_add_same_cancel2 neq0_conv)

lemma lex_number_shorter: "lex_number s = Some (l, rest) \<Longrightarrow> length rest < length s"
proof -
  have int: "length r < length t" if "lex_int t = Some (i, r)" for t i r
    using that by (cases t) (auto simp: lex_int_def split: if_splits dest: digits1_shorter)
  have frac: "length r \<le> length t" if "lex_frac t = Some (i, r)" for t i r
    using that by (cases t) (auto simp: lex_frac_def split: if_splits dest!: digits1_shorter)
  have exp: "length r \<le> length t" if "lex_exp t = Some (i, r)" for t i r
    using that by (cases t) (auto simp: lex_exp_def Let_def split: if_splits dest!: digits1_shorter)
  show "lex_number s = Some (l, rest) \<Longrightarrow> length rest < length s"
    by (auto simp: lex_number_def Let_def split: if_splits option.splits dest!: int frac exp) arith
qed

function lex :: "string \<Rightarrow> token list option" where
  "lex [] = Some []"
| "lex (c # cs) =
     (if is_space c then lex cs
      else (case punct c of
         Some t \<Rightarrow> map_option ((#) t) (lex cs)
       | None \<Rightarrow>
           if c = quote_char then
             (case unquote cs of
                None \<Rightarrow> None
              | Some (s, rest) \<Rightarrow> map_option ((#) (TStr s)) (lex rest))
           else if c = CHR ''t'' then
             (if take 3 cs = ''rue'' then map_option ((#) (TBool True)) (lex (drop 3 cs)) else None)
           else if c = CHR ''f'' then
             (if take 4 cs = ''alse'' then map_option ((#) (TBool False)) (lex (drop 4 cs)) else None)
           else if c = CHR ''n'' then
             (if take 3 cs = ''ull'' then map_option ((#) TNull) (lex (drop 3 cs)) else None)
           else
             (case lex_number (c # cs) of
                None \<Rightarrow> None
              | Some (l, rest) \<Rightarrow> map_option ((#) (TNum l)) (lex rest))))"
  by pat_completeness auto
termination
  by (relation "measure length") (auto dest: unquote_shorter lex_number_shorter)

text \<open>
  The parser is the pushdown automaton of Go's scanner, run over the tokens: a stack of the open
  arrays and objects and what may come next. More than 10000 open brackets are an error.
\<close>

datatype frame = FArr "json list" | FObj "(string \<times> json) list" string

datatype mode = MValue | MValueOrEnd | MKeyOrEnd | MKey | MColon | MNext | MDone json

type_synonym pstate = "mode \<times> frame list"

fun push_value :: "json \<Rightarrow> frame list \<Rightarrow> pstate" where
  "push_value v [] = (MDone v, [])"
| "push_value v (FArr vs # fs) = (MNext, FArr (v # vs) # fs)"
| "push_value v (FObj ms k # fs) = (MNext, FObj ((k, v) # ms) k # fs)"

definition open_frame :: "mode \<Rightarrow> frame \<Rightarrow> frame list \<Rightarrow> pstate option" where
  "open_frame m f fs = (if length fs < 10000 then Some (m, f # fs) else None)"

fun start_value :: "frame list \<Rightarrow> token \<Rightarrow> pstate option" where
  "start_value fs (TStr s) = Some (push_value (JStr s) fs)"
| "start_value fs (TNum l) = Some (push_value (JNum l) fs)"
| "start_value fs (TBool b) = Some (push_value (JBool b) fs)"
| "start_value fs TNull = Some (push_value JNull fs)"
| "start_value fs TLBrace = open_frame MKeyOrEnd (FObj [] []) fs"
| "start_value fs TLBrack = open_frame MValueOrEnd (FArr []) fs"
| "start_value fs _ = None"

fun set_key :: "string \<Rightarrow> frame list \<Rightarrow> pstate option" where
  "set_key k (FObj ms _ # fs) = Some (MColon, FObj ms k # fs)"
| "set_key k _ = None"

fun close_arr :: "frame list \<Rightarrow> pstate option" where
  "close_arr (FArr vs # fs) = Some (push_value (JArr (rev vs)) fs)"
| "close_arr _ = None"

fun close_obj :: "frame list \<Rightarrow> pstate option" where
  "close_obj (FObj ms _ # fs) = Some (push_value (JObj (rev ms)) fs)"
| "close_obj _ = None"

fun comma :: "frame list \<Rightarrow> pstate option" where
  "comma (FArr vs # fs) = Some (MValue, FArr vs # fs)"
| "comma (FObj ms k # fs) = Some (MKey, FObj ms k # fs)"
| "comma [] = None"

definition parse_step :: "pstate \<Rightarrow> token \<Rightarrow> pstate option" where
  "parse_step st t =
     (let (m, fs) = st in
      case m of
        MValue \<Rightarrow> start_value fs t
      | MValueOrEnd \<Rightarrow> if t = TRBrack then close_arr fs else start_value fs t
      | MKeyOrEnd \<Rightarrow>
          if t = TRBrace then close_obj fs
          else (case t of TStr k \<Rightarrow> set_key k fs | _ \<Rightarrow> None)
      | MKey \<Rightarrow> (case t of TStr k \<Rightarrow> set_key k fs | _ \<Rightarrow> None)
      | MColon \<Rightarrow> if t = TColon then Some (MValue, fs) else None
      | MNext \<Rightarrow>
          if t = TComma then comma fs
          else if t = TRBrace then close_obj fs
          else if t = TRBrack then close_arr fs
          else None
      | MDone v \<Rightarrow> None)"

fun parse_tokens :: "pstate \<Rightarrow> token list \<Rightarrow> pstate option" where
  "parse_tokens st [] = Some st"
| "parse_tokens st (t # ts) =
     (case parse_step st t of None \<Rightarrow> None | Some st' \<Rightarrow> parse_tokens st' ts)"

definition json_parse :: "string \<Rightarrow> json option" where
  "json_parse s =
     (case lex s of
        None \<Rightarrow> None
      | Some ts \<Rightarrow>
          (case parse_tokens (MValue, []) ts of
             Some (MDone v, []) \<Rightarrow> Some v
           | _ \<Rightarrow> None))"

subsection \<open>json.Marshal and json.Unmarshal\<close>

text \<open>
  \<open>leadershipPayload\<close>, the value of the leadership key; \<open>Priority\<close> is left out of the text when
  it is 0 (\<open>omitempty\<close>). Marshalling a struct of two strings and an int cannot fail, so the
  branches of the program that handle an error of \<open>json.Marshal\<close> here are not reachable.
\<close>

record leadershipPayload =
  pl_ID :: string
  pl_Token :: string
  pl_Priority :: int

definition json_Marshal :: "leadershipPayload \<Rightarrow> string" where
  "json_Marshal p =
     CHR ''{'' # quote ''id'' @ '':'' @ quote (pl_ID p) @ '','' @ quote ''token'' @ '':'' @ quote (pl_Token p)
     @ (if pl_Priority p = 0 then [] else '','' @ quote ''priority'' @ '':'' @ Itoa (pl_Priority p)) @ ''}''"

datatype json_error = SyntaxError | UnmarshalTypeError

text \<open>
  Struct fields are matched without regard to case (the Kelvin sign folds to K, the long s to S).
\<close>

fun foldName :: "string \<Rightarrow> string" where
  "foldName [] = []"
| "foldName (c # cs) =
     (if c = CHR 0xE2 \<and> take 2 cs = [CHR 0x84, CHR 0xAA] then CHR ''k'' # foldName (drop 2 cs)
      else if c = CHR 0xC5 \<and> take 1 cs = [CHR 0xBF] then CHR ''s'' # foldName (drop 1 cs)
      else to_lower c # foldName cs)"

text \<open>
  Decoding one member into the struct: null leaves the field alone, a value of the wrong type is
  remembered as an error and decoding goes on; an int field takes an integer literal in range.
\<close>

definition decode_member :: "json_error option \<times> leadershipPayload \<Rightarrow> string \<times> json
    \<Rightarrow> json_error option \<times> leadershipPayload" where
  "decode_member st m =
     (let (err, p) = st; (k, v) = m; bad = (Some UnmarshalTypeError, p) in
      if foldName k = ''id'' then
        (case v of JNull \<Rightarrow> (err, p) | JStr s \<Rightarrow> (err, p\<lparr>pl_ID := s\<rparr>) | _ \<Rightarrow> bad)
      else if foldName k = ''token'' then
        (case v of JNull \<Rightarrow> (err, p) | JStr s \<Rightarrow> (err, p\<lparr>pl_Token := s\<rparr>) | _ \<Rightarrow> bad)
      else if foldName k = ''priority'' then
        (case v of
           JNull \<Rightarrow> (err, p)
         | JNum l \<Rightarrow> (case ParseInt l of Some i \<Rightarrow> (err, p\<lparr>pl_Priority := i\<rparr>) | None \<Rightarrow> bad)
         | _ \<Rightarrow> bad)
      else (err, p))"

definition zero_payload :: leadershipPayload where
  "zero_payload = \<lparr>pl_ID = [], pl_Token = [], pl_Priority = 0\<rparr>"

definition Unmarshal_payload :: "string \<Rightarrow> json_error + leadershipPayload" where
  "Unmarshal_payload s =
     (case json_parse s of
        None \<Rightarrow> Inl SyntaxError
      | Some JNull \<Rightarrow> Inr zero_payload
      | Some (JObj ms) \<Rightarrow>
          (case foldl decode_member (None, zero_payload) ms of
             (None, p) \<Rightarrow> Inr p
           | (Some e, p) \<Rightarrow> Inl e)
      | Some _ \<Rightarrow> Inl UnmarshalTypeError)"

text \<open>
  Decoding into a \<open>map[string]interface{}\<close>: the last of equal keys wins and null gives the nil
  map; a number becomes a \<open>float64\<close>, and one too large for it is an error, wherever it occurs.
\<close>

definition lit_mantissa :: "string \<Rightarrow> int" where
  "lit_mantissa l = atou (filter is_digit (takeWhile (\<lambda>c. c \<noteq> CHR ''e'' \<and> c \<noteq> CHR ''E'') l))"

definition lit_exponent :: "string \<Rightarrow> int" where
  "lit_exponent l =
     (let m = takeWhile (\<lambda>c. c \<noteq> CHR ''e'' \<and> c \<noteq> CHR ''E'') l;
          frac = int (length (drop 1 (dropWhile (\<lambda>c. c \<noteq> CHR ''.'') m)));
          x = drop 1 (dropWhile (\<lambda>c. c \<noteq> CHR ''e'' \<and> c \<noteq> CHR ''E'') l);
          e = atou (filter is_digit x)
      in (if take 1 x = ''-'' then - e else e) - frac)"

text \<open>The literal rounds to an infinite \<open>float64\<close>: its magnitude is at least \<open>2^1024 - 2^970\<close>.\<close>

definition float64_overflows :: "string \<Rightarrow> bool" where
  "float64_overflows l \<longleftrightarrow>
     (let m = lit_mantissa l; e = lit_exponent l; lim = 2 ^ 1024 - 2 ^ 970 in
      if 0 \<le> e then lim \<le> m * 10 ^ nat e else lim * 10 ^ nat (- e) \<le> m)"

fun number_overflow :: "json \<Rightarrow> bool" where
  "number_overflow (JNum l) = float64_overflows l"
| "number_overflow (JArr vs) = list_ex number_overflow vs"
| "number_overflow (JObj ms) = list_ex (\<lambda>(k, v). number_overflow v) ms"
| "number_overflow _ = False"

definition Unmarshal_map :: "string \<Rightarrow> json_error + (string \<rightharpoonup> json)" where
  "Unmarshal_map s =
     (case json_parse s of
        None \<Rightarrow> Inl SyntaxError
      | Some JNull \<Rightarrow> Inr Map.empty
      | Some (JObj ms) \<Rightarrow>
          if number_overflow (JObj ms) then Inl UnmarshalTypeError else Inr (map_of (rev ms))
      | Some _ \<Rightarrow> Inl UnmarshalTypeError)"

subsection \<open>Decoding what was encoded\<close>

lemma byte_bounds: "0 \<le> byte c" "byte c < 256"
  by (cases c, simp add: of_char_def)+

lemma byte_eqD: "byte c = n \<Longrightarrow> c = char_of n"
  using char_of_char [where 'a = int, of c] by simp

lemma char_of_byte_eq: "char_of n = c \<longleftrightarrow> byte c = n mod 256" for n :: int
  by (metis char_of_char of_char_of)

lemma DecodeRune_multi:
  assumes "DecodeRune s = (r, n)" and "1 < n"
  obtains (two) b0 b1 rest where "s = b0 # b1 # rest" "n = 2" "0xC2 \<le> byte b0" "byte b0 \<le> 0xDF" "cont b1"
      "r = 64 * (byte b0 - 0xC0) + (byte b1 - 0x80)"
  | (three) b0 b1 b2 rest where "s = b0 # b1 # b2 # rest" "n = 3" "0xE0 \<le> byte b0" "byte b0 \<le> 0xEF"
      "(if byte b0 = 0xE0 then 0xA0 else 0x80) \<le> byte b1"
      "byte b1 \<le> (if byte b0 = 0xED then 0x9F else 0xBF)" "cont b2"
      "r = 4096 * (byte b0 - 0xE0) + 64 * (byte b1 - 0x80) + (byte b2 - 0x80)"
  | (four) b0 b1 b2 b3 rest where "s = b0 # b1 # b2 # b3 # rest" "n = 4" "0xF0 \<le> byte b0" "byte b0 \<le> 0xF4"
      "(if byte b0 = 0xF0 then 0x90 else 0x80) \<le> byte b1"
      "byte b1 \<le> (if byte b0 = 0xF4 then 0x8F else 0xBF)" "cont b2" "cont b3"
      "r = 262144 * (byte b0 - 0xF0) + 4096 * (byte b1 - 0x80) + 64 * (byte b2 - 0x80) + (byte b3 - 0x80)"
proof -
  from assms show ?thesis
    unfolding DecodeRune_def by (auto split: list.splits if_splits intro: two three four)
qed

lemma DecodeRune_prefix:
  assumes "DecodeRune s = (r, n)" and "1 < n"
  shows "length (take n s) = n" and "DecodeRune (take n s @ x) = (r, n)"
proof -
  from assms show "length (take n s) = n"
    by (cases rule: DecodeRune_multi) auto
  from assms show "DecodeRune (take n s @ x) = (r, n)"
    by (cases rule: DecodeRune_multi) (auto simp: DecodeRune_def)
qed

lemma char_of_byte_offset [simp]: "char_of (k + (byte c - k)) = c"
  by simp

lemma EncodeRune2:
  fixes x y :: int
  assumes "2 \<le> x" "x < 32" "0 \<le> y" "y < 64"
  shows "EncodeRune (64 * x + y) = [char_of (0xC0 + x), char_of (0x80 + y)]"
proof -
  have "(64 * x + y) div 64 = x" "(64 * x + y) mod 64 = y"
    using assms by (simp_all add: int_div_pos_eq int_mod_pos_eq)
  then show ?thesis using assms by (simp add: EncodeRune_def)
qed

lemma EncodeRune3:
  fixes x y z :: int
  assumes "0 \<le> x" "x < 16" "0 \<le> y" "y < 64" "0 \<le> z" "z < 64" "x = 0 \<Longrightarrow> 32 \<le> y"
  shows "EncodeRune (4096 * x + 64 * y + z) = [char_of (0xE0 + x), char_of (0x80 + y), char_of (0x80 + z)]"
proof -
  let ?r = "4096 * x + 64 * y + z"
  have "?r div 4096 = x" "?r div 64 = 64 * x + y" "(64 * x + y) mod 64 = y" "?r mod 64 = z"
    using assms by (simp_all add: int_div_pos_eq [of _ _ _ "64 * y + z"] int_div_pos_eq [of _ _ _ z]
        int_mod_pos_eq [of _ _ x] int_mod_pos_eq [of _ _ "64 * x + y"])
  moreover have "0x800 \<le> ?r" "?r < 0x10000" using assms by (cases "x = 0"; simp)+
  ultimately show ?thesis by (simp add: EncodeRune_def)
qed

lemma EncodeRune4:
  fixes x y z w r :: int
  assumes "0 \<le> x" "0 \<le> y" "y < 64" "0 \<le> z" "z < 64" "0 \<le> w" "w < 64" "x = 0 \<Longrightarrow> 16 \<le> y"
    and r: "r = 262144 * x + 4096 * y + 64 * z + w"
  shows "EncodeRune r = [char_of (0xF0 + x), char_of (0x80 + y), char_of (0x80 + z), char_of (0x80 + w)]"
proof -
  have d: "r div 262144 = x" "r div 4096 = 64 * x + y" "r div 64 = 64 * (64 * x + y) + z"
    using assms by (simp_all add: int_div_pos_eq [of _ _ _ "4096 * y + 64 * z + w"]
        int_div_pos_eq [of _ _ _ "64 * z + w"] int_div_pos_eq [of _ _ _ w])
  have m: "(64 * x + y) mod 64 = y" "(64 * (64 * x + y) + z) mod 64 = z" "r mod 64 = w"
    using assms by (simp_all add: int_mod_pos_eq [of _ _ x] int_mod_pos_eq [of _ _ "64 * x + y"]
        int_mod_pos_eq [of _ _ "4096 * x + 64 * y + z"])
  have "\<not> r < 0x80" "\<not> r < 0x800" "\<not> r < 0x10000" using assms by (cases "x = 0"; simp)+
  then show ?thesis unfolding EncodeRune_def by (simp only: if_False d m)
qed

lemma EncodeRune_DecodeRune:
  assumes "DecodeRune s = (r, n)" and "1 < n"
  shows "EncodeRune r = take n s"
  using assms
proof (cases rule: DecodeRune_multi)
  case (two b0 b1 rest)
  have "EncodeRune r = [b0, b1]"
    unfolding two(6) by (subst EncodeRune2) (use two in \<open>auto simp: cont_def\<close>)
  then show ?thesis using two by simp
next
  case (three b0 b1 b2 rest)
  have "EncodeRune r = [b0, b1, b2]"
    unfolding three(8) by (subst EncodeRune3) (use three in \<open>auto simp: cont_def split: if_splits\<close>)
  then show ?thesis using three by simp
next
  case (four b0 b1 b2 b3 rest)
  have "EncodeRune r = [b0, b1, b2, b3]"
    by (subst EncodeRune4 [OF _ _ _ _ _ _ _ _ four(9)]) (use four in \<open>auto simp: cont_def split: if_splits\<close>)
  then show ?thesis using four by simp
qed

lemma hex_val_hex_digit: "0 \<le> d \<Longrightarrow> d < 16 \<Longrightarrow> hex_val (hex_digit d) = Some d"
  by (auto simp: hex_val_def hex_digit_def is_digit_def)

lemma unquote_escape_byte: "byte c < 128 \<Longrightarrow> unquote (escape_byte c @ x) = emit [c] (unquote x)"
proof -
  assume c: "byte c < 128"
  have h: "hex_val (hex_digit (byte c div 16)) = Some (byte c div 16)"
     "hex_val (hex_digit (byte c mod 16)) = Some (byte c mod 16)"
    by (rule hex_val_hex_digit; use c byte_bounds [of c] in simp)+
  have h0: "hex_val (CHR ''0'') = Some 0" by (simp add: hex_val_def is_digit_def)
  have "16 * (byte c div 16) + byte c mod 16 = byte c" by simp
  then show ?thesis using c h h0 byte_bounds [of c]
    by (auto simp: escape_byte_def simple_escape_def getu4_def EncodeRune_def)
qed

text \<open>
  What a round trip makes of a Go string: every malformed byte becomes the replacement character.
\<close>

function sanitize :: "string \<Rightarrow> string" where
  "sanitize [] = []"
| "sanitize (c # cs) =
     (if byte c < 0x80 then c # sanitize cs
      else (let n = snd (DecodeRune (c # cs)) in
        if n \<le> 1 then replacement @ sanitize cs
        else take n (c # cs) @ sanitize (drop (n - 1) cs)))"
  by pat_completeness auto
termination
  by (relation "measure length") auto

lemma sanitize_valid: "valid_utf8 s \<Longrightarrow> sanitize s = s"
proof (induction s rule: sanitize.induct)
  case (2 c cs)
  show ?case
  proof (cases "byte c < 0x80")
    case True
    with 2 show ?thesis by simp
  next
    case False
    define n where "n = snd (DecodeRune (c # cs))"
    with False "2.prems" have "1 < n" "valid_utf8 (drop (n - 1) cs)" by (simp_all add: Let_def)
    then have "sanitize (drop (n - 1) cs) = drop (n - 1) cs"
      using "2.IH"(3) [OF False n_def] by (metis not_le)
    with False \<open>1 < n\<close> show ?thesis
      by (simp add: Let_def take_Cons' flip: n_def)
  qed
qed simp

lemma unquote_rune:
  assumes "DecodeRune (c # cs) = (r, n)" and "1 < n" and "\<not> byte c < 0x80"
  shows "unquote (take n (c # cs) @ x) = emit (take n (c # cs)) (unquote x)"
proof -
  obtain m where m: "n = Suc m" using assms(2) by (cases n) auto
  have len: "length (take m cs) = m" and dec: "DecodeRune (c # take m cs @ x) = (r, n)"
    using DecodeRune_prefix(1) [OF assms(1,2)] DecodeRune_prefix(2) [OF assms(1,2), of x] by (simp_all add: m)
  have "c \<noteq> quote_char" "c \<noteq> backslash" "\<not> byte c < 0x20" using assms(3) by auto
  then show ?thesis using assms(2,3) dec len by (simp add: m)
qed

lemma EncodeRune_replacement: "EncodeRune 65533 = replacement"
  by code_simp

lemma unquote_escape: "unquote (escape s @ quote_char # rest) = Some (sanitize s, rest)"
proof (induction s rule: escape.induct)
  case (2 c cs)
  show ?case
  proof (cases "byte c < 0x80")
    case True
    with 2 show ?thesis by (simp add: unquote_escape_byte)
  next
    case False
    obtain r n where dec: "DecodeRune (c # cs) = (r, n)" by fastforce
    consider (bad) "n \<le> 1" | (sep) "1 < n" "r = 0x2028 \<or> r = 0x2029"
      | (rune) "1 < n" "\<not> (r = 0x2028 \<or> r = 0x2029)" by linarith
    then show ?thesis
    proof cases
      case bad
      have "unquote ([backslash, CHR ''u'', CHR ''f'', CHR ''f'', CHR ''f'', CHR ''d''] @ x) = emit replacement (unquote x)" for x
        by (simp add: simple_escape_def getu4_def hex_val_def is_digit_def EncodeRune_replacement)
      with False dec bad 2 show ?thesis by (simp del: unquote.simps)
    next
      case sep
      have "unquote ([backslash, CHR ''u'', CHR ''2'', CHR ''0'', CHR ''2'', hex_digit (r mod 16)] @ x)
          = emit (EncodeRune r) (unquote x)" for x
        using sep(2) by (auto simp: simple_escape_def getu4_def hex_val_def is_digit_def hex_digit_def)
      with False dec sep 2 EncodeRune_DecodeRune [OF dec sep(1)] show ?thesis
        by (simp del: unquote.simps)
    next
      case rune
      with False dec 2 unquote_rune [OF dec rune(1) False] show ?thesis
        by (simp del: unquote.simps take.simps)
    qed
  qed
qed simp

declare unquote.simps(2) [simp del] escape.simps(2) [simp del] sanitize.simps(2) [simp del]

lemma lex_quote: "lex (quote s @ rest) = map_option ((#) (TStr (sanitize s))) (lex rest)"
  by (simp add: quote_def unquote_escape is_space_def punct_def)

lemma lex_digits_stop:
  assumes "list_all is_digit ds" "ds \<noteq> []" "rest = [] \<or> \<not> is_digit (hd rest)"
  shows "digits1 (ds @ rest) = Some (ds, rest)"
proof -
  have "takeWhile is_digit (ds @ rest) = ds" "dropWhile is_digit (ds @ rest) = rest"
    using assms(1,3) by (induction ds) (cases rest; auto)+
  then show ?thesis using assms(2) by (simp add: digits1_def)
qed

lemma utoa_hd_zero: "0 < n \<Longrightarrow> hd (utoa n) \<noteq> CHR ''0''"
proof (induction n rule: utoa.induct)
  case (1 n)
  show ?case
  proof (cases "n < 10")
    case True
    with 1 have "byte (digit_char n) \<noteq> byte (CHR ''0'')" by simp
    then show ?thesis using True by (auto simp: utoa.simps [of n])
  next
    case False
    with 1 show ?thesis by (simp add: utoa.simps [of n])
  qed
qed

lemma lex_number_Itoa:
  assumes "i \<noteq> 0"
  shows "lex_number (Itoa i @ CHR ''}'' # rest) = Some (Itoa i, CHR ''}'' # rest)"
proof -
  let ?r = "CHR ''}'' # rest"
  have int: "lex_int (utoa n @ ?r) = Some (utoa n, ?r)" if "0 < n" for n
  proof -
    have "take 1 (utoa n @ ?r) \<noteq> ''0''"
      using utoa_hd_zero [OF that] by (cases "utoa n") auto
    moreover have "digits1 (utoa n @ ?r) = Some (utoa n, ?r)"
      using that by (intro lex_digits_stop) (auto simp: is_digit_def)
    ultimately show ?thesis by (simp add: lex_int_def)
  qed
  have "lex_frac ?r = Some ([], ?r)" "lex_exp ?r = Some ([], ?r)"
    by (simp_all add: lex_frac_def lex_exp_def)
  moreover have "take 1 (utoa i @ ?r) \<noteq> ''-''" if "0 < i"
    using utoa_no_sign(1) [of i] that by (cases "utoa i") auto
  ultimately show ?thesis
    using assms int [of i] int [of "- i"] by (auto simp: lex_number_def Itoa_def Let_def)
qed

lemma lex_Itoa:
  assumes "i \<noteq> 0"
  shows "lex (Itoa i @ CHR ''}'' # rest) = map_option ((#) (TNum (Itoa i))) (lex (CHR ''}'' # rest))"
proof -
  obtain c cs where c: "Itoa i = c # cs" by (cases "Itoa i") (auto simp: Itoa_def split: if_splits)
  then have d: "is_digit c \<or> c = CHR ''-''"
    using utoa_digits [of i] by (auto simp: Itoa_def split: if_splits simp del: utoa_digits)
  from d have "byte c = 45 \<or> 48 \<le> byte c \<and> byte c \<le> 57" by (auto simp: is_digit_def)
  then have ne: "c \<noteq> x" if "byte x < 45 \<or> 57 < byte x" for x using that by auto
  then have "\<not> is_space c \<and> punct c = None \<and> c \<notin> {quote_char, CHR ''t'', CHR ''f'', CHR ''n''}"
    by (simp add: is_space_def punct_def)
  moreover have "lex_number (c # cs @ CHR ''}'' # rest) = Some (Itoa i, CHR ''}'' # rest)"
    using lex_number_Itoa [OF assms, of rest] by (simp add: c)
  ultimately show ?thesis by (simp add: c)
qed

lemma lex_punct: "punct c = Some t \<Longrightarrow> lex (c # cs) = map_option ((#) t) (lex cs)"
  by (auto simp: punct_def is_space_def split: if_splits)

definition payload_members :: "leadershipPayload \<Rightarrow> (string \<times> json) list" where
  "payload_members p =
     [(''id'', JStr (sanitize (pl_ID p))), (''token'', JStr (sanitize (pl_Token p)))]
     @ (if pl_Priority p = 0 then [] else [(''priority'', JNum (Itoa (pl_Priority p)))])"

lemma sanitize_names [simp]:
  "sanitize ''id'' = ''id''" "sanitize ''token'' = ''token''" "sanitize ''priority'' = ''priority''"
  by code_simp+

lemma json_parse_Marshal: "json_parse (json_Marshal p) = Some (JObj (payload_members p))"
proof -
  have "punct (CHR ''{'') = Some TLBrace" "punct (CHR ''}'') = Some TRBrace"
    "punct (CHR '':'') = Some TColon" "punct (CHR '','') = Some TComma"
    by (simp_all add: punct_def)
  note l = this [THEN lex_punct] lex_quote lex_Itoa
  show ?thesis
    by (cases "pl_Priority p = 0")
      (simp_all add: json_parse_def json_Marshal_def l payload_members_def parse_step_def open_frame_def
        del: lex.simps(2))
qed


definition sanitize_payload :: "leadershipPayload \<Rightarrow> leadershipPayload" where
  "sanitize_payload p = p\<lparr>pl_ID := sanitize (pl_ID p), pl_Token := sanitize (pl_Token p)\<rparr>"

lemma foldName_names [simp]:
  "foldName ''id'' = ''id''" "foldName ''token'' = ''token''" "foldName ''priority'' = ''priority''"
  by code_simp+

declare foldName.simps(2) [simp del]

lemma decode_member_simps:
  "decode_member (e, p) (''id'', JStr s) = (e, p\<lparr>pl_ID := s\<rparr>)"
  "decode_member (e, p) (''token'', JStr s) = (e, p\<lparr>pl_Token := s\<rparr>)"
  "ParseInt l = Some i \<Longrightarrow> decode_member (e, p) (''priority'', JNum l) = (e, p\<lparr>pl_Priority := i\<rparr>)"
  by (simp_all add: decode_member_def)

lemma Unmarshal_payload_Marshal:
  "in_i64 (pl_Priority p) \<Longrightarrow> Unmarshal_payload (json_Marshal p) = Inr (sanitize_payload p)"
  by (simp add: Unmarshal_payload_def json_parse_Marshal payload_members_def decode_member_simps
      zero_payload_def sanitize_payload_def ParseInt_Itoa)

lemma Itoa_chars: "list_all (\<lambda>c. is_digit c \<or> c = CHR ''-'') (Itoa i)"
proof -
  have "list_all (\<lambda>c. is_digit c \<or> c = CHR ''-'') (utoa n)" if "0 \<le> n" for n
    using utoa_digits [OF that] by (auto simp: list_all_iff)
  then show ?thesis by (simp add: Itoa_def)
qed

lemma Itoa_no_overflow: "in_i64 i \<Longrightarrow> \<not> float64_overflows (Itoa i)"
proof -
  assume i: "in_i64 i"
  have whole: "takeWhile P (Itoa i) = Itoa i" "dropWhile P (Itoa i) = []"
    if "\<And>c. is_digit c \<or> c = CHR ''-'' \<Longrightarrow> P c" for P
    using Itoa_chars [of i] that by (auto simp: takeWhile_eq_all_conv list_all_iff)
  have e: "is_digit c \<or> c = CHR ''-'' \<Longrightarrow> c \<noteq> CHR ''e'' \<and> c \<noteq> CHR ''E''"
    "is_digit c \<or> c = CHR ''-'' \<Longrightarrow> c \<noteq> CHR ''.''" for c
    by (auto simp: is_digit_def)
  have "filter is_digit (Itoa i) = utoa \<bar>i\<bar>"
    using utoa_digits [of "\<bar>i\<bar>"] by (auto simp: Itoa_def filter_id_conv list_all_iff is_digit_neq
        simp del: utoa_digits) (simp_all add: is_digit_def)
  then have "lit_mantissa (Itoa i) = \<bar>i\<bar>" by (simp add: lit_mantissa_def whole e)
  moreover have "lit_exponent (Itoa i) = 0" by (simp add: lit_exponent_def Let_def whole e atou_def)
  ultimately show ?thesis using i by (auto simp: float64_overflows_def in_i64_def)
qed

lemma Unmarshal_map_Marshal:
  "in_i64 (pl_Priority p) \<Longrightarrow> \<exists>m. Unmarshal_map (json_Marshal p) = Inr m \<and>
     m ''id'' = Some (JStr (sanitize (pl_ID p))) \<and> m ''token'' = Some (JStr (sanitize (pl_Token p)))"
  by (simp add: Unmarshal_map_def json_parse_Marshal payload_members_def Itoa_no_overflow)

lemma sanitize_ascii: "ascii s \<Longrightarrow> sanitize s = s"
  by (rule sanitize_valid) (induction s; simp)

text \<open>
  The codec as the election sees it: decoding an encoded payload gives it back, up to a
  normalisation. The election's lemmas about stored values use only this.
\<close>

locale payload_codec =
  fixes enc :: "'p \<Rightarrow> string" and dec :: "string \<Rightarrow> 'e + 'p" and norm :: "'p \<Rightarrow> 'p" and wf :: "'p \<Rightarrow> bool"
  assumes dec_enc: "wf p \<Longrightarrow> dec (enc p) = Inr (norm p)"
begin

lemma enc_inj: "wf p \<Longrightarrow> wf q \<Longrightarrow> enc p = enc q \<Longrightarrow> norm p = norm q"
  by (metis dec_enc sum.inject(2))

lemma dec_defined: "wf p \<Longrightarrow> \<exists>q. dec (enc p) = Inr q"
  using dec_enc by blast

end

definition wf_payload :: "leadershipPayload \<Rightarrow> bool" where
  "wf_payload p \<longleftrightarrow> in_i64 (pl_Priority p)"

interpretation json: payload_codec json_Marshal Unmarshal_payload sanitize_payload wf_payload
  by unfold_locales (simp add: wf_payload_def Unmarshal_payload_Marshal)

text \<open>
  C14: Storing a payload and reading it back gives the same id, token and priority, for every
  payload whose two strings are valid UTF-8.
\<close>

theorem payload_roundtrip:
  assumes "wf_payload p" and "valid_utf8 (pl_ID p)" and "valid_utf8 (pl_Token p)"
  shows "Unmarshal_payload (json_Marshal p) = Inr p"
  using json.dec_enc [OF assms(1)] assms(2,3) by (simp add: sanitize_payload_def sanitize_valid)

theorem payload_roundtrip_witness:
  "Unmarshal_payload (json_Marshal \<lparr>pl_ID = ''node<1>'', pl_Token = ''tok'', pl_Priority = -7\<rparr>)
     = Inr \<lparr>pl_ID = ''node<1>'', pl_Token = ''tok'', pl_Priority = -7\<rparr>"
  by (rule payload_roundtrip) (simp_all add: wf_payload_def in_i64_def)

text \<open>
  For any payload, malformed UTF-8 included, decoding what was encoded succeeds, and both
  decoders see the same id and token: the original ones with each malformed byte replaced.
\<close>

theorem payload_decoders_agree:
  assumes "wf_payload p"
  shows "\<exists>q m. Unmarshal_payload (json_Marshal p) = Inr q \<and> Unmarshal_map (json_Marshal p) = Inr m \<and>
    pl_ID q = sanitize (pl_ID p) \<and> pl_Token q = sanitize (pl_Token p) \<and>
    m ''id'' = Some (JStr (pl_ID q)) \<and> m ''token'' = Some (JStr (pl_Token q))"
  using json.dec_enc [OF assms] Unmarshal_map_Marshal [of p] assms
  by (auto simp: sanitize_payload_def wf_payload_def)

theorem payload_decoders_agree_witness:
  "\<exists>q m. Unmarshal_payload (json_Marshal \<lparr>pl_ID = [CHR 0xFF], pl_Token = ''t'', pl_Priority = 1\<rparr>) = Inr q \<and>
    Unmarshal_map (json_Marshal \<lparr>pl_ID = [CHR 0xFF], pl_Token = ''t'', pl_Priority = 1\<rparr>) = Inr m \<and>
    pl_ID q = replacement \<and> m ''id'' = Some (JStr (pl_ID q))"
proof -
  have "sanitize [CHR 0xFF] = replacement" by code_simp
  then show ?thesis
    using payload_decoders_agree [of "\<lparr>pl_ID = [CHR 0xFF], pl_Token = ''t'', pl_Priority = 1\<rparr>"]
    by (auto simp: wf_payload_def in_i64_def)
qed

end
