(* ===== verification/Key_Value.thy ===== *)
theory Key_Value
  imports Leader_Errors
begin

text \<open>
  The key-value store behind an election: the interfaces \<open>Entry\<close>, \<open>Watcher\<close> and \<open>KeyValue\<close> of
  \<open>leader/election.go\<close>, its adapter over a NATS bucket, and the in-memory store
  \<open>MockKeyValue\<close> of \<open>internal/natsmock/keyvalue.go\<close> with its adapter of
  \<open>leader/test_adapters.go\<close>, then the mock JetStream and connection of
  \<open>internal/natsmock/connection.go\<close>. An interface value is a record of its methods; a method
  takes the state it works on and returns it updated. The contract of a store is the locale
  \<open>kv_store\<close>, which the mock store meets.
\<close>

subsection \<open>Interfaces\<close>

record Entry =
  Key :: string
  Value :: string
  Revision :: u64

text \<open>
  A watcher as its receiver sees it: the entries waiting in the channel (a nil entry, \<open>None\<close>,
  marks a deleted key) and whether the channel is closed behind them.
\<close>

record Watcher =
  Updates :: "Entry option list"
  Closed :: bool

text \<open>
  \<open>opts\<close> is the list of TTL options passed along; \<open>Get\<close> may return a nil entry with a nil error.
\<close>

record 's KeyValue =
  Create :: "string \<Rightarrow> string \<Rightarrow> duration list \<Rightarrow> 's \<Rightarrow> (error + u64) \<times> 's"
  Update :: "string \<Rightarrow> string \<Rightarrow> u64 \<Rightarrow> duration list \<Rightarrow> 's \<Rightarrow> (error + u64) \<times> 's"
  Get :: "string \<Rightarrow> 's \<Rightarrow> (error + Entry option) \<times> 's"
  Delete :: "string \<Rightarrow> 's \<Rightarrow> error option \<times> 's"
  Watch :: "string \<Rightarrow> 's \<Rightarrow> (error + Watcher) \<times> 's"

subsection \<open>The adapter over a NATS bucket\<close>

text \<open>
  \<open>nats.KeyValue\<close> is a library type: a parameter, given by the methods the adapter calls.
\<close>

record 's nats_KeyValue =
  nats_Create :: "string \<Rightarrow> string \<Rightarrow> 's \<Rightarrow> (error + u64) \<times> 's"
  nats_Update :: "string \<Rightarrow> string \<Rightarrow> u64 \<Rightarrow> 's \<Rightarrow> (error + u64) \<times> 's"
  nats_Get :: "string \<Rightarrow> 's \<Rightarrow> (error + Entry option) \<times> 's"
  nats_Delete :: "string \<Rightarrow> 's \<Rightarrow> error option \<times> 's"
  nats_Watch :: "string \<Rightarrow> 's \<Rightarrow> (error + Watcher) \<times> 's"

definition natsEntryAdapter :: "Entry \<Rightarrow> Entry" where
  "natsEntryAdapter e = \<lparr>Key = Key e, Value = Value e, Revision = Revision e\<rparr>"

text \<open>\<open>Updates\<close> forwards every entry, a nil entry as nil, and closes with the library's channel.\<close>

definition natsWatcherAdapter :: "Watcher \<Rightarrow> Watcher" where
  "natsWatcherAdapter w = \<lparr>Updates = map (map_option natsEntryAdapter) (Updates w), Closed = Closed w\<rparr>"

definition natsKeyValueAdapter :: "'s nats_KeyValue \<Rightarrow> 's KeyValue" where
  "natsKeyValueAdapter nkv =
     \<lparr>Create = (\<lambda>key v opts s. nats_Create nkv key v s),
      Update = (\<lambda>key v rv opts s. nats_Update nkv key v rv s),
      Get = (\<lambda>key s.
        let (r, s') = nats_Get nkv key s in
        (case r of Inl err \<Rightarrow> Inl err | Inr None \<Rightarrow> Inr None | Inr (Some e) \<Rightarrow> Inr (Some (natsEntryAdapter e)), s')),
      Delete = (\<lambda>key s. nats_Delete nkv key s),
      Watch = (\<lambda>key s.
        let (r, s') = nats_Watch nkv key s in
        (case r of Inl err \<Rightarrow> Inl err | Inr w \<Rightarrow> Inr (natsWatcherAdapter w), s'))\<rparr>"

subsection \<open>The in-memory store\<close>

record mockEntry =
  me_Value :: string
  me_Rev :: u64

text \<open>
  The override functions are the test hooks \<open>CreateFunc\<close> to \<open>WatchFunc\<close> (nil is \<open>None\<close>). The
  artificial delay and the signalling channels, which are written without blocking and only
  read by tests, have no effect on any result and are left out.
\<close>

record MockKeyValue =
  data :: "string \<rightharpoonup> mockEntry"
  rev_counter :: u64
  failCreate :: bool
  failUpdate :: bool
  failGet :: bool
  failDelete :: bool
  failWatch :: bool
  CreateFunc :: "(string \<Rightarrow> string \<Rightarrow> error + u64) option"
  UpdateFunc :: "(string \<Rightarrow> string \<Rightarrow> u64 \<Rightarrow> error + u64) option"
  GetFunc :: "(string \<Rightarrow> error + Entry option) option"
  DeleteFunc :: "(string \<Rightarrow> error option) option"
  WatchFunc :: "(string \<Rightarrow> error + Watcher) option"

definition NewMockKeyValue :: MockKeyValue where
  "NewMockKeyValue =
     \<lparr>data = Map.empty, rev_counter = 0, failCreate = False, failUpdate = False, failGet = False,
      failDelete = False, failWatch = False, CreateFunc = None, UpdateFunc = None, GetFunc = None,
      DeleteFunc = None, WatchFunc = None\<rparr>"

definition mock_Create :: "string \<Rightarrow> string \<Rightarrow> MockKeyValue \<Rightarrow> (error + u64) \<times> MockKeyValue" where
  "mock_Create key v m =
     (case CreateFunc m of
        Some createFunc \<Rightarrow> (createFunc key v, m)
      | None \<Rightarrow>
          if failCreate m then (Inl (ErrorString ''create failed''), m)
          else (case data m key of
             Some _ \<Rightarrow> (Inl (ErrorString ''key already exists''), m)
           | None \<Rightarrow>
               let r = rev_counter m + 1 in
               (Inr r, m\<lparr>rev_counter := r, data := (data m)(key \<mapsto> \<lparr>me_Value = v, me_Rev = r\<rparr>)\<rparr>)))"

definition mock_Update :: "string \<Rightarrow> string \<Rightarrow> u64 \<Rightarrow> MockKeyValue \<Rightarrow> (error + u64) \<times> MockKeyValue" where
  "mock_Update key v rv m =
     (case UpdateFunc m of
        Some updateFunc \<Rightarrow> (updateFunc key v rv, m)
      | None \<Rightarrow>
          if failUpdate m then (Inl (ErrorString ''update failed''), m)
          else (case data m key of
             None \<Rightarrow> (Inl (ErrorString ''key not found''), m)
           | Some e \<Rightarrow>
               if me_Rev e \<noteq> rv then (Inl (ErrorString ''revision mismatch''), m)
               else
                 let r = rev_counter m + 1 in
                 (Inr r, m\<lparr>rev_counter := r, data := (data m)(key \<mapsto> \<lparr>me_Value = v, me_Rev = r\<rparr>)\<rparr>)))"

definition mock_Get :: "string \<Rightarrow> MockKeyValue \<Rightarrow> error + Entry option" where
  "mock_Get key m =
     (case GetFunc m of
        Some getFunc \<Rightarrow> getFunc key
      | None \<Rightarrow>
          if failGet m then Inl (ErrorString ''get failed'')
          else (case data m key of
             None \<Rightarrow> Inl (ErrorString ''key not found'')
           | Some e \<Rightarrow> Inr (Some \<lparr>Key = key, Value = me_Value e, Revision = me_Rev e\<rparr>)))"

definition mock_Delete :: "string \<Rightarrow> MockKeyValue \<Rightarrow> error option \<times> MockKeyValue" where
  "mock_Delete key m =
     (case DeleteFunc m of
        Some deleteFunc \<Rightarrow> (deleteFunc key, m)
      | None \<Rightarrow>
          if failDelete m then (Some (ErrorString ''delete failed''), m)
          else (case data m key of
             None \<Rightarrow> (Some (ErrorString ''key not found''), m)
           | Some _ \<Rightarrow> (None, m\<lparr>data := (data m)(key := None)\<rparr>)))"

definition mock_Watch :: "string \<Rightarrow> MockKeyValue \<Rightarrow> error + Watcher" where
  "mock_Watch key m =
     (case WatchFunc m of
        Some watchFunc \<Rightarrow> watchFunc key
      | None \<Rightarrow>
          if failWatch m then Inl (ErrorString ''watch failed'')
          else Inr \<lparr>Updates =
              (case data m key of
                 None \<Rightarrow> []
               | Some e \<Rightarrow> [Some \<lparr>Key = key, Value = me_Value e, Revision = me_Rev e\<rparr>]), Closed = True\<rparr>)"

definition SetCreateFunc :: "(string \<Rightarrow> string \<Rightarrow> error + u64) option \<Rightarrow> MockKeyValue \<Rightarrow> MockKeyValue" where
  "SetCreateFunc fn m = m\<lparr>CreateFunc := fn\<rparr>"

definition SetUpdateFunc :: "(string \<Rightarrow> string \<Rightarrow> u64 \<Rightarrow> error + u64) option \<Rightarrow> MockKeyValue \<Rightarrow> MockKeyValue" where
  "SetUpdateFunc fn m = m\<lparr>UpdateFunc := fn\<rparr>"

definition SetGetFunc :: "(string \<Rightarrow> error + Entry option) option \<Rightarrow> MockKeyValue \<Rightarrow> MockKeyValue" where
  "SetGetFunc fn m = m\<lparr>GetFunc := fn\<rparr>"

definition SetDeleteFunc :: "(string \<Rightarrow> error option) option \<Rightarrow> MockKeyValue \<Rightarrow> MockKeyValue" where
  "SetDeleteFunc fn m = m\<lparr>DeleteFunc := fn\<rparr>"

definition SetWatchFunc :: "(string \<Rightarrow> error + Watcher) option \<Rightarrow> MockKeyValue \<Rightarrow> MockKeyValue" where
  "SetWatchFunc fn m = m\<lparr>WatchFunc := fn\<rparr>"

text \<open>The adapter of \<open>test_adapters.go\<close>: the store as a \<open>KeyValue\<close>.\<close>

definition MockEntryAdapter :: "Entry \<Rightarrow> Entry" where
  "MockEntryAdapter e = \<lparr>Key = Key e, Value = Value e, Revision = Revision e\<rparr>"

definition MockWatcherAdapter :: "Watcher \<Rightarrow> Watcher" where
  "MockWatcherAdapter w = \<lparr>Updates = map (map_option MockEntryAdapter) (Updates w), Closed = Closed w\<rparr>"

definition MockKeyValueAdapter :: "MockKeyValue KeyValue" where
  "MockKeyValueAdapter =
     \<lparr>Create = (\<lambda>key v opts m. mock_Create key v m),
      Update = (\<lambda>key v rv opts m. mock_Update key v rv m),
      Get = (\<lambda>key m.
        (case mock_Get key m of
           Inl err \<Rightarrow> Inl err | Inr None \<Rightarrow> Inr None | Inr (Some e) \<Rightarrow> Inr (Some (MockEntryAdapter e)), m)),
      Delete = (\<lambda>key m. mock_Delete key m),
      Watch = (\<lambda>key m.
        (case mock_Watch key m of Inl err \<Rightarrow> Inl err | Inr w \<Rightarrow> Inr (MockWatcherAdapter w), m))\<rparr>"

subsection \<open>Mock JetStream and connection\<close>

datatype Status = StatusConnected | StatusDisconnected | StatusClosed

record MockJetStream =
  buckets :: "string \<rightharpoonup> MockKeyValue"

record MockConn =
  conn_status :: Status
  conn_js :: MockJetStream
  failJetStream :: bool

definition NewMockJetStream :: MockJetStream where
  "NewMockJetStream = \<lparr>buckets = Map.empty\<rparr>"

definition NewMockConn :: MockConn where
  "NewMockConn = \<lparr>conn_status = StatusConnected, conn_js = NewMockJetStream, failJetStream = False\<rparr>"

text \<open>\<open>MockJetStream.KeyValue\<close>: the bucket, created on first use, and it never fails.\<close>

definition mock_KeyValue :: "string \<Rightarrow> MockJetStream \<Rightarrow> MockKeyValue \<times> MockJetStream" where
  "mock_KeyValue bucket m =
     (case buckets m bucket of
        Some kv \<Rightarrow> (kv, m)
      | None \<Rightarrow> (NewMockKeyValue, m\<lparr>buckets := (buckets m)(bucket \<mapsto> NewMockKeyValue)\<rparr>))"

definition mock_JetStream :: "MockConn \<Rightarrow> error + MockJetStream" where
  "mock_JetStream m =
     (if failJetStream m then Inl (ErrorString ''jetstream failed'')
      else if conn_status m \<noteq> StatusConnected then Inl (ErrorString ''connection not available'')
      else Inr (conn_js m))"

definition mock_SetStatus :: "Status \<Rightarrow> MockConn \<Rightarrow> MockConn" where
  "mock_SetStatus st m = m\<lparr>conn_status := st\<rparr>"

definition mock_Disconnect :: "MockConn \<Rightarrow> MockConn" where
  "mock_Disconnect m = m\<lparr>conn_status := StatusDisconnected\<rparr>"

definition mock_Close :: "MockConn \<Rightarrow> MockConn" where
  "mock_Close m = m\<lparr>conn_status := StatusClosed\<rparr>"

subsection \<open>The contract of a store\<close>

text \<open>
  What the election relies on, over the current contents of the store (value and revision of each
  key), the last revision handed out and a well-formedness predicate: a successful \<open>Create\<close> found
  no key, a successful \<open>Update\<close> found exactly the expected revision, both write what they were
  given under a revision larger than any before, and a failed operation changes nothing. The
  revision order holds until the 64-bit counter is used up, hence the premise on it.
\<close>

locale kv_store =
  fixes kv :: "'s KeyValue"
    and contents :: "'s \<Rightarrow> string \<Rightarrow> (string \<times> u64) option"
    and last_rev :: "'s \<Rightarrow> u64"
    and ok :: "'s \<Rightarrow> bool"
  assumes create_ok: "ok s \<Longrightarrow> last_rev s < max_rev \<Longrightarrow> Create kv k v opts s = (Inr n, s') \<Longrightarrow>
      contents s k = None \<and> contents s' = (contents s)(k \<mapsto> (v, n)) \<and> last_rev s < n \<and> last_rev s' = n \<and> ok s'"
    and create_err: "ok s \<Longrightarrow> Create kv k v opts s = (Inl e, s') \<Longrightarrow>
      contents s' = contents s \<and> last_rev s' = last_rev s \<and> ok s'"
    and update_ok: "ok s \<Longrightarrow> last_rev s < max_rev \<Longrightarrow> Update kv k v r opts s = (Inr n, s') \<Longrightarrow>
      (\<exists>w. contents s k = Some (w, r)) \<and> contents s' = (contents s)(k \<mapsto> (v, n)) \<and>
      last_rev s < n \<and> last_rev s' = n \<and> ok s'"
    and update_err: "ok s \<Longrightarrow> Update kv k v r opts s = (Inl e, s') \<Longrightarrow>
      contents s' = contents s \<and> last_rev s' = last_rev s \<and> ok s'"
    and get_ok: "ok s \<Longrightarrow> Get kv k s = (Inr (Some en), s') \<Longrightarrow> contents s k = Some (Value en, Revision en)"
    and get_frame: "ok s \<Longrightarrow> Get kv k s = (g, s') \<Longrightarrow>
      contents s' = contents s \<and> last_rev s' = last_rev s \<and> ok s'"
    and delete_ok: "ok s \<Longrightarrow> Delete kv k s = (None, s') \<Longrightarrow>
      contents s' = (contents s)(k := None) \<and> last_rev s' = last_rev s \<and> ok s'"
    and delete_err: "ok s \<Longrightarrow> Delete kv k s = (Some e, s') \<Longrightarrow>
      contents s' = contents s \<and> last_rev s' = last_rev s \<and> ok s'"
    and revs_bounded: "ok s \<Longrightarrow> contents s k = Some (v, r) \<Longrightarrow> r \<le> last_rev s"
begin

lemma create_present_fails:
  assumes "ok s" "last_rev s < max_rev" "contents s k = Some x"
  shows "\<exists>e. fst (Create kv k v opts s) = Inl e"
  using create_ok [OF assms(1,2), of k v opts] assms(3) by (cases "Create kv k v opts s"; cases "fst (Create kv k v opts s)") auto

lemma update_stale_fails:
  assumes "ok s" "last_rev s < max_rev" "contents s k \<noteq> Some (w, r)" "contents s k = Some (w, r')"
  shows "\<exists>e. fst (Update kv k v r opts s) = Inl e"
  using update_ok [OF assms(1,2), of k v r opts] assms(3,4)
  by (cases "Update kv k v r opts s"; cases "fst (Update kv k v r opts s)") auto

lemma update_absent_fails:
  assumes "ok s" "last_rev s < max_rev" "contents s k = None"
  shows "\<exists>e. fst (Update kv k v r opts s) = Inl e"
  using update_ok [OF assms(1,2), of k v r opts] assms(3)
  by (cases "Update kv k v r opts s"; cases "fst (Update kv k v r opts s)") auto

text \<open>Of two writers that saw the same revision, the second loses.\<close>

lemma update_exclusive:
  assumes "ok s" "last_rev s < max_rev" "Update kv k v r opts s = (Inr n, s')" "last_rev s' < max_rev"
  shows "\<exists>e. fst (Update kv k v' r opts' s') = Inl e"
proof -
  obtain w where w: "contents s k = Some (w, r)" "contents s' k = Some (v, n)" "last_rev s < n" "ok s'"
    using update_ok [OF assms(1-3)] by auto
  then have "r \<le> last_rev s" using revs_bounded [OF assms(1)] by blast
  with w have "r \<noteq> n" by auto
  with w update_stale_fails [OF w(4) assms(4), of k v r n v' opts'] show ?thesis by auto
qed

lemma create_exclusive:
  assumes "ok s" "last_rev s < max_rev" "Create kv k v opts s = (Inr n, s')" "last_rev s' < max_rev"
  shows "\<exists>e. fst (Create kv k v' opts' s') = Inl e"
  using create_ok [OF assms(1-3)] create_present_fails [OF _ assms(4), of k "(v, n)"] by auto

end

subsection \<open>The mock store meets the contract\<close>

definition mock_contents :: "MockKeyValue \<Rightarrow> string \<Rightarrow> (string \<times> u64) option" where
  "mock_contents m k = map_option (\<lambda>e. (me_Value e, me_Rev e)) (data m k)"

text \<open>No override is installed, and no stored revision is above the counter.\<close>

definition mock_ok :: "MockKeyValue \<Rightarrow> bool" where
  "mock_ok m \<longleftrightarrow>
     CreateFunc m = None \<and> UpdateFunc m = None \<and> GetFunc m = None \<and> DeleteFunc m = None \<and>
     (\<forall>k e. data m k = Some e \<longrightarrow> me_Rev e \<le> rev_counter m)"

lemma mock_contents_upd [simp]:
  "mock_contents (m\<lparr>rev_counter := r, data := (data m)(k \<mapsto> e)\<rparr>) = (mock_contents m)(k \<mapsto> (me_Value e, me_Rev e))"
  "mock_contents (m\<lparr>data := (data m)(k := None)\<rparr>) = (mock_contents m)(k := None)"
  by (auto simp: mock_contents_def)

lemma next_rev: "r < max_rev \<Longrightarrow> r < r + 1"
  by uint_arith

lemma mock_ok_write:
  assumes "mock_ok m" "rev_counter m < max_rev"
  shows "mock_ok (m\<lparr>rev_counter := rev_counter m + 1, data := (data m)(k \<mapsto> \<lparr>me_Value = v, me_Rev = rev_counter m + 1\<rparr>)\<rparr>)"
  using assms next_rev [OF assms(2)] by (auto simp: mock_ok_def dest: order_trans [OF _ less_imp_le])

lemmas mock_op_defs = mock_Create_def mock_Update_def mock_Get_def mock_Delete_def mock_Watch_def

interpretation mock: kv_store MockKeyValueAdapter mock_contents rev_counter mock_ok
proof (unfold_locales, goal_cases)
  case (1 s k v opts n s')
  then show ?case
    using mock_ok_write [OF 1(1,2)] next_rev [OF 1(2)]
    by (auto simp: MockKeyValueAdapter_def mock_Create_def mock_ok_def [of s] Let_def split: option.splits if_splits)
      (simp add: mock_contents_def)
next
  case (2 s k v opts e s')
  then show ?case
    by (auto simp: MockKeyValueAdapter_def mock_Create_def mock_ok_def Let_def split: option.splits if_splits)
next
  case (3 s k v r opts n s')
  then show ?case
    using mock_ok_write [OF 3(1,2)] next_rev [OF 3(2)]
    by (auto simp: MockKeyValueAdapter_def mock_Update_def mock_ok_def [of s] Let_def split: option.splits if_splits)
      (simp add: mock_contents_def)
next
  case (4 s k v r opts e s')
  then show ?case
    by (auto simp: MockKeyValueAdapter_def mock_Update_def mock_ok_def Let_def split: option.splits if_splits)
next
  case (5 s k e s')
  then show ?case
    by (auto simp: MockKeyValueAdapter_def mock_Get_def mock_ok_def mock_contents_def MockEntryAdapter_def
        split: option.splits if_splits)
next
  case (6 s k r s')
  then show ?case by (simp add: MockKeyValueAdapter_def)
next
  case (7 s k s')
  then show ?case
    by (auto simp: MockKeyValueAdapter_def mock_Delete_def mock_ok_def split: option.splits if_splits)
next
  case (8 s k e s')
  then show ?case
    by (auto simp: MockKeyValueAdapter_def mock_Delete_def mock_ok_def split: option.splits if_splits)
next
  case (9 s k v r)
  then show ?case by (auto simp: mock_ok_def mock_contents_def)
qed

subsection \<open>A store that decides\<close>

text \<open>
  While the store is up it decides every conditional update: it accepts the expected revision and
  refuses any other with an error that is permanent, so that no caller retries it.
\<close>

locale fencing_store = kv_store +
  fixes up :: "'s \<Rightarrow> bool"
  assumes update_accepts: "ok s \<Longrightarrow> up s \<Longrightarrow> contents s k = Some (v0, r) \<Longrightarrow>
      \<exists>n s'. Update kv k v r opts s = (Inr n, s')"
    and update_refuses: "ok s \<Longrightarrow> up s \<Longrightarrow> \<nexists>v0. contents s k = Some (v0, r) \<Longrightarrow>
      \<exists>err s'. Update kv k v r opts s = (Inl err, s') \<and> IsPermanentError (Some err)"

definition mock_up :: "MockKeyValue \<Rightarrow> bool" where
  "mock_up m \<longleftrightarrow> \<not> failUpdate m"

lemma mock_refusals_permanent:
  "IsPermanentError (Some (ErrorString ''revision mismatch''))"
  "IsPermanentError (Some (ErrorString ''key not found''))"
  by code_simp+

interpretation mock: fencing_store MockKeyValueAdapter mock_contents rev_counter mock_ok mock_up
proof (unfold_locales, goal_cases)
  case (1 s k v0 r v opts)
  then show ?case
    by (auto simp: MockKeyValueAdapter_def mock_Update_def mock_ok_def mock_up_def mock_contents_def Let_def)
next
  case (2 s k r v opts)
  then show ?case
    by (auto simp: MockKeyValueAdapter_def mock_Update_def mock_ok_def mock_up_def mock_contents_def Let_def
        mock_refusals_permanent split: option.split)
qed

end
