(* ===== verification/Connection_Monitor.thy ===== *)
theory Connection_Monitor
  imports Leader_Errors
begin

text \<open>
  The connection monitor of \<open>leader/connection.go\<close>: \<open>natsConnectionMonitor\<close> and its methods. The
  \<open>nats.Conn\<close> is a library object; what is kept of it is which of the three status handlers are
  installed on it. The callbacks given to \<open>OnDisconnect\<close> and \<open>OnReconnect\<close> are named by a
  \<open>handler\<close>; a status handler returns the callback that is to run.
\<close>

datatype ConnectionStatus =
    ConnectionStatusConnected | ConnectionStatusDisconnected
  | ConnectionStatusReconnected | ConnectionStatusClosed

datatype handler = H_disconnectHandler | H_handleReconnect | H_other nat

record natsConnectionMonitor =
  mon_status :: "ConnectionStatus option"
  mon_disconnectHandler :: "handler option"
  mon_reconnectHandler :: "handler option"
  mon_ctx :: bool
  mon_cancel :: bool
  mon_installed :: bool

definition NewNATSConnectionMonitor :: natsConnectionMonitor where
  "NewNATSConnectionMonitor =
     \<lparr>mon_status = None, mon_disconnectHandler = None, mon_reconnectHandler = None,
      mon_ctx = False, mon_cancel = False, mon_installed = False\<rparr>"

definition mon_Start :: "natsConnectionMonitor \<Rightarrow> error option \<times> natsConnectionMonitor" where
  "mon_Start m =
     (if mon_ctx m then (Some (Sentinel ErrAlreadyStarted), m)
      else (None, m\<lparr>mon_ctx := True, mon_cancel := True,
              mon_status := Some ConnectionStatusConnected, mon_installed := True\<rparr>))"

definition mon_Stop :: "natsConnectionMonitor \<Rightarrow> error option \<times> natsConnectionMonitor" where
  "mon_Stop m =
     (if \<not> mon_cancel m then (Some (Sentinel ErrAlreadyStopped), m)
      else (None, m\<lparr>mon_installed := False, mon_status := Some ConnectionStatusDisconnected\<rparr>))"

definition mon_Status :: "natsConnectionMonitor \<Rightarrow> ConnectionStatus" where
  "mon_Status m = (case mon_status m of Some s \<Rightarrow> s | None \<Rightarrow> ConnectionStatusDisconnected)"

definition mon_OnDisconnect :: "handler option \<Rightarrow> natsConnectionMonitor \<Rightarrow> natsConnectionMonitor" where
  "mon_OnDisconnect fn m = m\<lparr>mon_disconnectHandler := fn\<rparr>"

definition mon_OnReconnect :: "handler option \<Rightarrow> natsConnectionMonitor \<Rightarrow> natsConnectionMonitor" where
  "mon_OnReconnect fn m = m\<lparr>mon_reconnectHandler := fn\<rparr>"

definition mon_SetStatus :: "ConnectionStatus \<Rightarrow> natsConnectionMonitor \<Rightarrow> natsConnectionMonitor" where
  "mon_SetStatus st m = m\<lparr>mon_status := Some st\<rparr>"

definition mon_handleDisconnect :: "natsConnectionMonitor \<Rightarrow> handler option \<times> natsConnectionMonitor" where
  "mon_handleDisconnect m =
     (mon_disconnectHandler m, m\<lparr>mon_status := Some ConnectionStatusDisconnected\<rparr>)"

definition mon_handleReconnect :: "natsConnectionMonitor \<Rightarrow> handler option \<times> natsConnectionMonitor" where
  "mon_handleReconnect m =
     (mon_reconnectHandler m, m\<lparr>mon_status := Some ConnectionStatusReconnected\<rparr>)"

definition mon_handleClosed :: "natsConnectionMonitor \<Rightarrow> natsConnectionMonitor" where
  "mon_handleClosed m = m\<lparr>mon_status := Some ConnectionStatusClosed\<rparr>"

lemmas mon_defs =
  NewNATSConnectionMonitor_def mon_Start_def mon_Stop_def mon_Status_def mon_OnDisconnect_def
  mon_OnReconnect_def mon_SetStatus_def mon_handleDisconnect_def mon_handleReconnect_def mon_handleClosed_def

lemma mon_Start_fresh: "\<not> mon_ctx m \<Longrightarrow> fst (mon_Start m) = None \<and> mon_ctx (snd (mon_Start m))"
  by (simp add: mon_defs)

lemma mon_Stop_keeps_ctx: "mon_ctx (snd (mon_Stop m)) = mon_ctx m"
  by (simp add: mon_defs)

end
