(* ===== verification/Election_State.thy ===== *)
theory Election_State
  imports Leader_Config Key_Value Connection_Monitor Go_Json
begin

text \<open>
  One election instance: the struct \<open>kvElection\<close> of \<open>leader/kv_election.go\<close> with its construction,
  its metrics helpers, the two transitions \<open>becomeLeader\<close> and \<open>becomeFollower\<close>, \<open>Start\<close>, \<open>Stop\<close>,
  \<open>StopWithContext\<close>, \<open>Status\<close> and the accessors. Each definition is one method, run by one
  goroutine without interference; a goroutine it starts is appended to \<open>gos\<close>, to run on its own.
  The mutex is explicit, so a method that waits for a lock its own caller holds is \<open>Blocked\<close>;
  a use of a nil context is \<open>Panicked\<close>. Clock readings are an argument. Log output is left out,
  except that computing its fields may panic.
\<close>

subsection \<open>State\<close>

abbreviation StateInit :: string where "StateInit \<equiv> ''INIT''"
abbreviation StateCandidate :: string where "StateCandidate \<equiv> ''CANDIDATE''"
abbreviation StateLeader :: string where "StateLeader \<equiv> ''LEADER''"
abbreviation StateFollower :: string where "StateFollower \<equiv> ''FOLLOWER''"
abbreviation StateDemoted :: string where "StateDemoted \<equiv> ''DEMOTED''"
abbreviation StateStopped :: string where "StateStopped \<equiv> ''STOPPED''"

text \<open>A \<open>time.Time\<close>: nanoseconds on some clock, or the zero time.\<close>

type_synonym time = "int option"
type_synonym ctx_id = nat
type_synonym callback = nat
type_synonym labels = "(string \<times> string) list"

text \<open>
  A \<open>context.Context\<close>: its \<open>Err()\<close>, its deadline and its value under \<open>correlation_id\<close>. The
  election refers to the contexts it creates by number.
\<close>

datatype ctx_value = CorrString string | CorrOther

record Context =
  ctx_Err :: "error option"
  ctx_Deadline :: "int option"
  ctx_corr :: "ctx_value option"

definition Background :: Context where
  "Background = \<lparr>ctx_Err = None, ctx_Deadline = None, ctx_corr = None\<rparr>"

text \<open>The goroutines the election starts; those counted by the wait group are \<open>tracked\<close>.\<close>

datatype goroutine =
    Go_startAcquire
  | Go_heartbeatLoop
  | Go_validationLoop
  | Go_onPromote callback string
  | Go_watchLoop
  | Go_takeover
  | Go_verify
  | Go_acquireWithRetry "ctx_id option"
  | Go_checkKey "ctx_id option"
  | Go_onDemote callback

fun tracked :: "goroutine \<Rightarrow> bool" where
  "tracked (Go_acquireWithRetry _) = False"
| "tracked (Go_checkKey _) = False"
| "tracked (Go_onDemote _) = False"
| "tracked _ = True"

text \<open>Calls of the \<open>Metrics\<close> interface; gauges as booleans for 1 and 0.\<close>

datatype metric =
    SetIsLeader bool labels
  | SetConnectionStatus bool labels
  | IncTransitions labels
  | IncFailures labels
  | IncAcquireAttempts labels
  | IncTokenValidationFailures labels
  | ObserveHeartbeatDuration duration labels
  | ObserveLeaderDuration duration labels

record disconnectHandler =
  dh_timer :: "int option"
  dh_disconnectedAt :: time

record kvElection =
  cfg :: ElectionConfig
  key :: string
  isLeader :: bool
  leaderID :: string
  token :: string
  revision :: u64
  state :: string
  mu :: bool
  lastHeartbeat :: time
  lastTransition :: time
  leaderStartTime :: time
  watcherRunning :: bool
  wg :: nat
  ctx :: "ctx_id option"
  cancel :: "ctx_id option"
  contexts :: "Context list"
  onPromote :: "callback option"
  onDemote :: "callback option"
  connectionMonitor :: "natsConnectionMonitor option"
  dHandler :: "disconnectHandler option"
  healthFailureCount :: int
  gos :: "goroutine list"
  metrics :: "metric list"
  demoteCalls :: "callback list"

text \<open>
  An instance together with the store it works on and the number of tokens it has drawn.
\<close>

record 's world =
  el :: kvElection
  store :: 's
  uuids :: nat

subsection \<open>Locks, contexts, goroutines, logging\<close>

definition Lock :: "kvElection \<Rightarrow> kvElection outcome" where
  "Lock e = (if mu e then Blocked else Done (e\<lparr>mu := True\<rparr>))"

definition Unlock :: "kvElection \<Rightarrow> kvElection" where
  "Unlock e = e\<lparr>mu := False\<rparr>"

text \<open>A read lock is released before anything else happens; it only waits for a writer.\<close>

definition RLock :: "kvElection \<Rightarrow> kvElection outcome" where
  "RLock e = (if mu e then Blocked else Done e)"

definition get_ctx :: "kvElection \<Rightarrow> ctx_id \<Rightarrow> Context" where
  "get_ctx e i = (if i < length (contexts e) then contexts e ! i else Background)"

definition cancel_ctx :: "ctx_id option \<Rightarrow> kvElection \<Rightarrow> kvElection" where
  "cancel_ctx c e =
     (case c of
        None \<Rightarrow> e
      | Some i \<Rightarrow>
          if i < length (contexts e) \<and> ctx_Err (contexts e ! i) = None
          then e\<lparr>contexts := (contexts e)[i := (contexts e ! i)\<lparr>ctx_Err := Some Canceled\<rparr>]\<rparr>
          else e)"

definition go :: "goroutine \<Rightarrow> kvElection \<Rightarrow> kvElection" where
  "go g e = e\<lparr>gos := gos e @ [g], wg := (if tracked g then wg e + 1 else wg e)\<rparr>"

text \<open>\<open>logWithContext\<close> of \<open>logger.go\<close>.\<close>

definition logFields :: "kvElection \<Rightarrow> Context \<Rightarrow> labels outcome" where
  "logFields e c =
     (let fields = [(''instance_id'', InstanceID (cfg e)), (''group'', Group (cfg e)), (''bucket'', Bucket (cfg e))] in
      case ctx_corr c of
        None \<Rightarrow> Done fields
      | Some (CorrString s) \<Rightarrow> Done (fields @ [(''correlation_id'', s)])
      | Some CorrOther \<Rightarrow> Panicked)"

definition logWithContext :: "kvElection \<Rightarrow> ctx_id option \<Rightarrow> labels outcome" where
  "logWithContext e c = (case c of None \<Rightarrow> Panicked | Some i \<Rightarrow> logFields e (get_ctx e i))"

text \<open>A log call between two statements: nothing but its possible panic matters.\<close>

definition log_then :: "ctx_id option \<Rightarrow> kvElection \<Rightarrow> 'a outcome \<Rightarrow> 'a outcome" where
  "log_then c e k = and_then (logWithContext e c) (\<lambda>_. k)"

subsection \<open>Metrics\<close>

definition getMetricsLabels :: "kvElection \<Rightarrow> labels" where
  "getMetricsLabels e =
     [(''role'', Group (cfg e)), (''instance_id'', InstanceID (cfg e)), (''bucket'', Bucket (cfg e))]"

definition observe :: "metric \<Rightarrow> kvElection \<Rightarrow> kvElection" where
  "observe m e = (if Metrics (cfg e) then e\<lparr>metrics := metrics e @ [m]\<rparr> else e)"

definition recordTransition :: "string \<Rightarrow> string \<Rightarrow> kvElection \<Rightarrow> kvElection" where
  "recordTransition fromState toState e =
     observe (IncTransitions (getMetricsLabels e @ [(''from_state'', fromState), (''to_state'', toState)])) e"

definition recordFailure :: "string \<Rightarrow> kvElection \<Rightarrow> kvElection" where
  "recordFailure errorType e = observe (IncFailures (getMetricsLabels e @ [(''error_type'', errorType)])) e"

definition recordAcquireAttempt :: "string \<Rightarrow> kvElection \<Rightarrow> kvElection" where
  "recordAcquireAttempt status e = observe (IncAcquireAttempts (getMetricsLabels e @ [(''status'', status)])) e"

definition updateIsLeaderMetric :: "kvElection \<Rightarrow> kvElection" where
  "updateIsLeaderMetric e = observe (SetIsLeader (isLeader e) (getMetricsLabels e)) e"

definition recordLeaderDuration :: "int \<Rightarrow> kvElection \<Rightarrow> kvElection" where
  "recordLeaderDuration now e =
     (case leaderStartTime e of
        None \<Rightarrow> e
      | Some t \<Rightarrow> observe (ObserveLeaderDuration (time_Sub now t) (getMetricsLabels e)) e)"

subsection \<open>Construction\<close>

text \<open>
  \<open>newKVElection\<close>: \<open>nc\<close> is what \<open>nc.JetStream()\<close> and then \<open>js.KeyValue(bucket)\<close> return, \<open>hasConn\<close>
  whether \<open>nc\<close> implements \<open>NATSConnectionProvider\<close> with a non-nil connection.
\<close>

definition init_election :: "ElectionConfig \<Rightarrow> bool \<Rightarrow> kvElection" where
  "init_election c hasConn =
     \<lparr>cfg = c, key = Group c, isLeader = False, leaderID = [], token = [], revision = 0, state = StateInit,
      mu = False, lastHeartbeat = None, lastTransition = None, leaderStartTime = None,
      watcherRunning = False, wg = 0, ctx = None, cancel = None, contexts = [], onPromote = None,
      onDemote = None,
      connectionMonitor = (if hasConn then Some NewNATSConnectionMonitor else None),
      dHandler = (if hasConn then Some \<lparr>dh_timer = None, dh_disconnectedAt = None\<rparr> else None),
      healthFailureCount = 0, gos = [], metrics = [], demoteCalls = []\<rparr>"

definition newKVElection :: "(error + (string \<Rightarrow> error + 'k)) \<Rightarrow> bool \<Rightarrow> ElectionConfig \<Rightarrow> error + kvElection \<times> 'k" where
  "newKVElection nc hasConn c =
     (case validateConfig c of
        Some err \<Rightarrow> Inl err
      | None \<Rightarrow>
          (case nc of
             Inl err \<Rightarrow> Inl (WrapError ''failed to get JetStream'' err)
           | Inr js \<Rightarrow>
               (case js (Bucket c) of
                  Inl err \<Rightarrow> Inl (WrapError (''failed to get KV bucket '' @ Bucket c) err)
                | Inr kv \<Rightarrow> Inr (init_election c hasConn, kv))))"

text \<open>
  \<open>NewElection\<close> passes its arguments on. \<open>NewElectionWithConn\<close> wraps the connection in a
  \<open>natsConnAdapter\<close>, whose only method is \<open>JetStream\<close>: it provides no connection to monitor.
\<close>

definition NewElection :: "(error + (string \<Rightarrow> error + 'k)) \<Rightarrow> bool \<Rightarrow> ElectionConfig \<Rightarrow> error + kvElection \<times> 'k" where
  "NewElection nc hasConn c = newKVElection nc hasConn c"

definition NewElectionWithConn :: "(error + (string \<Rightarrow> error + 's nats_KeyValue)) \<Rightarrow> ElectionConfig
    \<Rightarrow> error + kvElection \<times> 's KeyValue" where
  "NewElectionWithConn nc c =
     NewElection
       (case nc of
          Inl err \<Rightarrow> Inl err
        | Inr js \<Rightarrow>
            Inr (\<lambda>bucket. case js bucket of Inl err \<Rightarrow> Inl err | Inr nkv \<Rightarrow> Inr (natsKeyValueAdapter nkv)))
       False c"

subsection \<open>Transitions\<close>

definition set_leader :: "int \<Rightarrow> string \<Rightarrow> u64 \<Rightarrow> kvElection \<Rightarrow> kvElection" where
  "set_leader now tok rv e =
     e\<lparr>isLeader := True, leaderID := InstanceID (cfg e), token := tok, revision := rv,
       state := StateLeader, lastHeartbeat := Some now, lastTransition := Some now,
       leaderStartTime := Some now\<rparr>"

definition becomeLeader :: "int \<Rightarrow> string \<Rightarrow> u64 \<Rightarrow> kvElection \<Rightarrow> kvElection outcome" where
  "becomeLeader now tok rv e0 =
     and_then (Lock e0) (\<lambda>e.
       let fromState = state e;
           e = set_leader now tok rv e;
           e = recordTransition fromState StateLeader e;
           e = updateIsLeaderMetric e
       in log_then (ctx e) e
         (let e = go Go_heartbeatLoop e;
              e = go Go_validationLoop e
          in case onPromote e of
               None \<Rightarrow> Done (Unlock e)
             | Some cb \<Rightarrow> log_then (ctx e) e (Done (Unlock (go (Go_onPromote cb tok) e)))))"

definition becomeFollower :: "int \<Rightarrow> kvElection \<Rightarrow> kvElection outcome" where
  "becomeFollower now e0 =
     and_then (Lock e0) (\<lambda>e.
       let fromState = state e;
           wasLeader = isLeader e;
           e = e\<lparr>isLeader := False, state := StateFollower, lastTransition := Some now\<rparr>;
           e = (if wasLeader then (recordLeaderDuration now e)\<lparr>leaderStartTime := None\<rparr> else e);
           e = recordTransition fromState StateFollower e;
           e = updateIsLeaderMetric e
       in log_then (ctx e) e
         (Done (Unlock
           (if ctx e \<noteq> None \<and> \<not> watcherRunning e
            then go Go_watchLoop (e\<lparr>watcherRunning := True\<rparr>) else e))))"

text \<open>
  What follows \<open>becomeFollower\<close> in each demoting handler: read the callback under the read lock
  and run it, if there is one, after a log line.
\<close>

definition run_onDemote :: "kvElection \<Rightarrow> kvElection outcome" where
  "run_onDemote e0 =
     and_then (RLock e0) (\<lambda>e.
       case onDemote e of
         None \<Rightarrow> Done e
       | Some cb \<Rightarrow> log_then (ctx e) e (Done (e\<lparr>demoteCalls := demoteCalls e @ [cb]\<rparr>)))"

subsection \<open>Start and Stop\<close>

definition Start :: "int \<Rightarrow> Context \<Rightarrow> kvElection \<Rightarrow> (error option \<times> kvElection) outcome" where
  "Start now parent e0 =
     and_then (Lock e0) (\<lambda>e.
       if (case ctx e of None \<Rightarrow> False | Some i \<Rightarrow> ctx_Err (get_ctx e i) = None)
       then Done (Some (Sentinel ErrAlreadyStarted), Unlock e)
       else
         let i = length (contexts e);
             e = e\<lparr>contexts := contexts e @ [parent], ctx := Some i, cancel := Some i\<rparr>;
             started = (case connectionMonitor e of None \<Rightarrow> None | Some m \<Rightarrow> fst (mon_Start m))
         in case started of
              Some err \<Rightarrow>
                Done (Some (WrapError ''failed to start connection monitor'' err), Unlock (cancel_ctx (cancel e) e))
            | None \<Rightarrow>
                let e = (case connectionMonitor e of
                           None \<Rightarrow> e
                         | Some m \<Rightarrow>
                             observe (SetConnectionStatus True (getMetricsLabels e))
                               (e\<lparr>connectionMonitor := Some (mon_OnReconnect (Some H_handleReconnect)
                                     (mon_OnDisconnect (Some H_disconnectHandler) (snd (mon_Start m))))\<rparr>));
                    e = e\<lparr>state := StateCandidate, lastTransition := Some now\<rparr>
                in and_then (logFields e parent) (\<lambda>_. Done (None, Unlock (go Go_startAcquire e))))"

text \<open>The part \<open>Stop\<close> and \<open>StopWithContext\<close> share: everything under the first lock.\<close>

definition stop_handler :: "kvElection \<Rightarrow> kvElection" where
  "stop_handler e = e\<lparr>dHandler := map_option (\<lambda>d. d\<lparr>dh_timer := None\<rparr>) (dHandler e)\<rparr>"

definition stop_monitor :: "kvElection \<Rightarrow> kvElection" where
  "stop_monitor e = e\<lparr>connectionMonitor := map_option (\<lambda>m. snd (mon_Stop m)) (connectionMonitor e)\<rparr>"

definition set_stopped :: "int \<Rightarrow> kvElection \<Rightarrow> kvElection" where
  "set_stopped now e =
     (let wasLeader = isLeader e;
          currentState = state e;
          e = cancel_ctx (cancel e) e;
          e = (if wasLeader then (recordLeaderDuration now e)\<lparr>leaderStartTime := None\<rparr> else e);
          e = e\<lparr>isLeader := False, state := StateStopped, lastTransition := Some now, watcherRunning := False\<rparr>;
          e = recordTransition currentState StateStopped e;
          e = updateIsLeaderMetric e
      in stop_handler e)"

text \<open>
  \<open>Stop\<close>, in the two parts before and after its wait for the goroutines: the first returns the error of a
  call that ends there, or whether the instance led. The wait ends when the goroutines are done or after
  five seconds, and both go on the same way; \<open>during\<close> is what the goroutines it waits for, and any others,
  do to the instance meanwhile (an attempt under way may still make it leader or follower).
\<close>

definition Stop_begin :: "int \<Rightarrow> kvElection \<Rightarrow> ((error + bool) \<times> kvElection) outcome" where
  "Stop_begin now e0 =
     and_then (Lock e0) (\<lambda>e.
       if ctx e = None then Done (Inl (Sentinel ErrAlreadyStopped), Unlock e)
       else
         let wasLeader = isLeader e;
             e = Unlock (set_stopped now e)
         in log_then (ctx e) e (Done (Inr wasLeader, stop_monitor e)))"

definition Stop_end :: "bool \<Rightarrow> kvElection \<Rightarrow> (error option \<times> kvElection) outcome" where
  "Stop_end wasLeader e =
     (case onDemote e of
        Some cb \<Rightarrow>
          if wasLeader
          then log_then (ctx e) e (Done (None, e\<lparr>demoteCalls := demoteCalls e @ [cb]\<rparr>))
          else Done (None, e)
      | None \<Rightarrow> Done (None, e))"

definition Stop :: "(kvElection \<Rightarrow> kvElection) \<Rightarrow> int \<Rightarrow> kvElection \<Rightarrow> (error option \<times> kvElection) outcome" where
  "Stop during now e0 =
     and_then (Stop_begin now e0) (\<lambda>(r, e).
       case r of
         Inl err \<Rightarrow> Done (Some err, e)
       | Inr wasLeader \<Rightarrow> Stop_end wasLeader (during e))"

text \<open>How a \<open>select\<close> over completion, a timer and a context ends.\<close>

datatype wait_result = WaitDone | WaitTimeout | WaitCtxDone error

definition stop_timeout :: "int \<Rightarrow> Context \<Rightarrow> StopOptions \<Rightarrow> duration" where
  "stop_timeout now c opts =
     (if Timeout opts = 0
      then (case ctx_Deadline c of Some deadline \<Rightarrow> time_Sub deadline now | None \<Rightarrow> 5 * Second)
      else Timeout opts)"

text \<open>The last part of \<open>StopWithContext\<close>, run when the goroutines are done.\<close>

definition stop_finish :: "'s KeyValue \<Rightarrow> Context \<Rightarrow> StopOptions \<Rightarrow> duration \<Rightarrow> bool \<Rightarrow> wait_result
    \<Rightarrow> 's world \<Rightarrow> (error option \<times> 's world) outcome" where
  "stop_finish kv c opts timeout wasLeader demoteWait w =
     and_then (Lock (el w)) (\<lambda>e.
       let e = Unlock (e\<lparr>ctx := None\<rparr>)
       in and_then (logFields e c) (\<lambda>_.
         let st = (if DeleteKey opts \<and> wasLeader then snd (Delete kv (key e) (store w)) else store w)
         in case onDemote e of
              Some cb \<Rightarrow>
                if \<not> wasLeader then Done (None, w\<lparr>el := e, store := st\<rparr>)
                else if WaitForDemote opts then
                  Done ((case demoteWait of
                           WaitDone \<Rightarrow> None
                         | WaitTimeout \<Rightarrow>
                             Some (ErrorString (''OnDemote callback timeout exceeded: '' @ Duration_String timeout))
                         | WaitCtxDone err \<Rightarrow> Some err),
                        w\<lparr>el := e\<lparr>demoteCalls := demoteCalls e @ [cb]\<rparr>, store := st\<rparr>)
                else Done (None, w\<lparr>el := go (Go_onDemote cb) e, store := st\<rparr>)
            | None \<Rightarrow> Done (None, w\<lparr>el := e, store := st\<rparr>)))"

text \<open>
  \<open>StopWithContext\<close>: as in \<open>Stop\<close>, \<open>during\<close> is what happens to the instance and the store while it waits
  for the goroutines.
\<close>

definition StopWithContext_begin :: "int \<Rightarrow> kvElection \<Rightarrow> ((error + bool) \<times> kvElection) outcome" where
  "StopWithContext_begin now e0 =
     and_then (Lock e0) (\<lambda>e.
       if ctx e = None then Done (Inl (Sentinel ErrAlreadyStopped), Unlock e)
       else Done (Inr (isLeader e), stop_monitor (Unlock (set_stopped now e))))"

definition StopWithContext :: "'s KeyValue \<Rightarrow> ('s world \<Rightarrow> 's world) \<Rightarrow> int \<Rightarrow> Context \<Rightarrow> StopOptions
    \<Rightarrow> wait_result \<Rightarrow> wait_result \<Rightarrow> 's world \<Rightarrow> (error option \<times> 's world) outcome" where
  "StopWithContext kv during now c opts wait demoteWait w0 =
     and_then (StopWithContext_begin now (el w0)) (\<lambda>(r, e).
       case r of
         Inl err \<Rightarrow> Done (Some err, w0\<lparr>el := e\<rparr>)
       | Inr wasLeader \<Rightarrow>
           let timeout = stop_timeout now c opts;
               w = during (w0\<lparr>el := e\<rparr>)
           in case wait of
                WaitTimeout \<Rightarrow>
                  and_then (logFields (el w) c) (\<lambda>_.
                    Done (Some (ErrorString (''shutdown timeout exceeded: '' @ Duration_String timeout)), w))
              | WaitCtxDone err \<Rightarrow> and_then (logFields (el w) c) (\<lambda>_. Done (Some err, w))
              | WaitDone \<Rightarrow> stop_finish kv c opts timeout wasLeader demoteWait w)"

subsection \<open>Accessors and callbacks\<close>

record ElectionStatus =
  st_State :: string
  st_IsLeader :: bool
  st_LeaderID :: string
  st_Token :: string
  st_LastHeartbeat :: time
  st_LastTransition :: time
  st_Revision :: u64

definition Status_of :: "kvElection \<Rightarrow> ElectionStatus" where
  "Status_of e =
     \<lparr>st_State = state e, st_IsLeader = isLeader e, st_LeaderID = leaderID e, st_Token = token e,
      st_LastHeartbeat = lastHeartbeat e, st_LastTransition = lastTransition e, st_Revision = revision e\<rparr>"

definition IsLeader :: "kvElection \<Rightarrow> bool" where "IsLeader e = isLeader e"

definition LeaderID :: "kvElection \<Rightarrow> string" where "LeaderID e = leaderID e"

definition Token :: "kvElection \<Rightarrow> string" where "Token e = token e"

definition OnPromote :: "callback option \<Rightarrow> kvElection \<Rightarrow> kvElection outcome" where
  "OnPromote fn e0 = and_then (Lock e0) (\<lambda>e. Done (Unlock (e\<lparr>onPromote := fn\<rparr>)))"

definition OnDemote :: "callback option \<Rightarrow> kvElection \<Rightarrow> kvElection outcome" where
  "OnDemote fn e0 = and_then (Lock e0) (\<lambda>e. Done (Unlock (e\<lparr>onDemote := fn\<rparr>)))"

subsection \<open>Unfolding the methods\<close>

text \<open>
  Logging with the election's own context works when there is one and its correlation id, if
  any, is a string.
\<close>

definition can_log :: "ctx_id option \<Rightarrow> Context list \<Rightarrow> bool" where
  "can_log c cs = (case c of None \<Rightarrow> False | Some i \<Rightarrow> i < length cs \<longrightarrow> ctx_corr (cs ! i) \<noteq> Some CorrOther)"

definition log_ok :: "kvElection \<Rightarrow> bool" where
  "log_ok e \<longleftrightarrow> can_log (ctx e) (contexts e)"

lemma logFields_cases:
  "logFields e c = Panicked \<and> ctx_corr c = Some CorrOther \<or>
   (\<exists>fs. logFields e c = Done fs) \<and> ctx_corr c \<noteq> Some CorrOther"
  by (auto simp: logFields_def Let_def split: option.split ctx_value.split)

lemma and_then_logFields:
  "and_then (logFields e c) (\<lambda>_. k) = (if ctx_corr c = Some CorrOther then Panicked else k)"
  using logFields_cases [of e c] by auto

lemma log_then_eq: "log_then c e k = (if can_log c (contexts e) then k else Panicked)"
  by (cases c) (auto simp: log_then_def logWithContext_def can_log_def and_then_logFields get_ctx_def Background_def)

lemma log_then_ctx: "log_then (ctx e) e k = (if log_ok e then k else Panicked)"
  by (simp add: log_then_eq log_ok_def)

lemma observe_eq: "observe m e = e\<lparr>metrics := metrics e @ (if Metrics (cfg e) then [m] else [])\<rparr>"
  by (simp add: observe_def)

lemma get_ctx_cong: "contexts e' = contexts e \<Longrightarrow> get_ctx e' i = get_ctx e i"
  by (simp add: get_ctx_def)

lemma log_ok_cong: "contexts e' = contexts e \<Longrightarrow> ctx e' = ctx e \<Longrightarrow> log_ok e' = log_ok e"
  by (simp add: log_ok_def)

lemma log_ok_ctx: "log_ok e \<Longrightarrow> ctx e \<noteq> None"
  by (cases "ctx e") (simp_all add: log_ok_def can_log_def)

lemma log_ok_observe [simp]: "log_ok (observe m e) = log_ok e"
  by (simp add: observe_eq log_ok_def)

lemmas metric_defs =
  recordTransition_def recordFailure_def recordAcquireAttempt_def updateIsLeaderMetric_def observe_eq

text \<open>The state after a promotion.\<close>

definition promoted :: "int \<Rightarrow> string \<Rightarrow> u64 \<Rightarrow> kvElection \<Rightarrow> kvElection" where
  "promoted now tok rv e =
     (let gs = [Go_heartbeatLoop, Go_validationLoop] @ (case onPromote e of None \<Rightarrow> [] | Some cb \<Rightarrow> [Go_onPromote cb tok]);
          ms = (if Metrics (cfg e)
                then [IncTransitions (getMetricsLabels e @ [(''from_state'', state e), (''to_state'', StateLeader)]),
                      SetIsLeader True (getMetricsLabels e)] else [])
      in (set_leader now tok rv e)\<lparr>gos := gos e @ gs, wg := wg e + length gs, metrics := metrics e @ ms\<rparr>)"

lemma becomeLeader_outcome:
  "becomeLeader now tok rv e =
     (if mu e then Blocked else if log_ok e then Done (promoted now tok rv e) else Panicked)"
  by (cases "onPromote e"; cases e)
    (simp_all add: becomeLeader_def Lock_def Unlock_def Let_def log_then_eq log_ok_def set_leader_def metric_defs
        getMetricsLabels_def go_def promoted_def)

text \<open>The state after a demotion (or any other way to follow).\<close>

definition demoted :: "int \<Rightarrow> kvElection \<Rightarrow> kvElection" where
  "demoted now e =
     (let gs = (if watcherRunning e then [] else [Go_watchLoop]);
          dur = (case leaderStartTime e of
                   None \<Rightarrow> []
                 | Some t \<Rightarrow> [ObserveLeaderDuration (time_Sub now t) (getMetricsLabels e)]);
          ms = (if Metrics (cfg e)
                then (if isLeader e then dur else []) @
                     [IncTransitions (getMetricsLabels e @ [(''from_state'', state e), (''to_state'', StateFollower)]),
                      SetIsLeader False (getMetricsLabels e)] else [])
      in e\<lparr>isLeader := False, state := StateFollower, lastTransition := Some now,
           leaderStartTime := (if isLeader e then None else leaderStartTime e),
           watcherRunning := True, gos := gos e @ gs, wg := wg e + length gs, metrics := metrics e @ ms\<rparr>)"

lemma becomeFollower_outcome:
  "becomeFollower now e =
     (if mu e then Blocked else if log_ok e then Done (demoted now e) else Panicked)"
  using log_ok_ctx [of e]
  by (cases "leaderStartTime e"; cases "isLeader e"; cases "watcherRunning e"; cases e)
    (auto simp: becomeFollower_def Lock_def Unlock_def Let_def log_then_eq log_ok_def metric_defs
        recordLeaderDuration_def getMetricsLabels_def go_def demoted_def)

lemma run_onDemote_outcome:
  "run_onDemote e =
     (if mu e then Blocked
      else case onDemote e of
             None \<Rightarrow> Done e
           | Some cb \<Rightarrow> if log_ok e then Done (e\<lparr>demoteCalls := demoteCalls e @ [cb]\<rparr>) else Panicked)"
  by (simp add: run_onDemote_def RLock_def log_then_ctx split: option.split)

text \<open>What the two transitions leave alone.\<close>

lemma promoted_simps [simp]:
  "cfg (promoted now tok rv e) = cfg e" "key (promoted now tok rv e) = key e"
  "isLeader (promoted now tok rv e)" "leaderID (promoted now tok rv e) = InstanceID (cfg e)"
  "token (promoted now tok rv e) = tok" "revision (promoted now tok rv e) = rv"
  "state (promoted now tok rv e) = StateLeader" "mu (promoted now tok rv e) = mu e"
  "ctx (promoted now tok rv e) = ctx e" "contexts (promoted now tok rv e) = contexts e"
  "cancel (promoted now tok rv e) = cancel e" "watcherRunning (promoted now tok rv e) = watcherRunning e"
  "onDemote (promoted now tok rv e) = onDemote e" "onPromote (promoted now tok rv e) = onPromote e"
  "lastHeartbeat (promoted now tok rv e) = Some now" "leaderStartTime (promoted now tok rv e) = Some now"
  "connectionMonitor (promoted now tok rv e) = connectionMonitor e" "dHandler (promoted now tok rv e) = dHandler e"
  "healthFailureCount (promoted now tok rv e) = healthFailureCount e"
  "demoteCalls (promoted now tok rv e) = demoteCalls e"
  by (simp_all add: promoted_def Let_def set_leader_def)

lemma demoted_simps [simp]:
  "cfg (demoted now e) = cfg e" "key (demoted now e) = key e"
  "\<not> isLeader (demoted now e)" "leaderID (demoted now e) = leaderID e"
  "token (demoted now e) = token e" "revision (demoted now e) = revision e"
  "state (demoted now e) = StateFollower" "mu (demoted now e) = mu e"
  "ctx (demoted now e) = ctx e" "contexts (demoted now e) = contexts e"
  "cancel (demoted now e) = cancel e" "watcherRunning (demoted now e)"
  "onDemote (demoted now e) = onDemote e" "onPromote (demoted now e) = onPromote e"
  "lastHeartbeat (demoted now e) = lastHeartbeat e"
  "connectionMonitor (demoted now e) = connectionMonitor e" "dHandler (demoted now e) = dHandler e"
  "healthFailureCount (demoted now e) = healthFailureCount e"
  "demoteCalls (demoted now e) = demoteCalls e"
  by (simp_all add: demoted_def Let_def)

lemma log_ok_promoted [simp]: "log_ok (promoted now tok rv e) = log_ok e"
  by (rule log_ok_cong) simp_all

lemma log_ok_demoted [simp]: "log_ok (demoted now e) = log_ok e"
  by (rule log_ok_cong) simp_all

subsection \<open>The contract of a demoting handler\<close>

text \<open>
  The handlers that end a leadership for cause share one contract: run on an unlocked instance
  whose context can be logged, they return; the instance then follows and its callback has been
  called once, if it has one.
\<close>

definition demoted_called :: "int \<Rightarrow> kvElection \<Rightarrow> kvElection" where
  "demoted_called now e =
     (demoted now e)\<lparr>demoteCalls := demoteCalls e @ (case onDemote e of None \<Rightarrow> [] | Some cb \<Rightarrow> [cb])\<rparr>"

lemma demoted_called_simps [simp]:
  "cfg (demoted_called now e) = cfg e" "key (demoted_called now e) = key e"
  "\<not> isLeader (demoted_called now e)" "leaderID (demoted_called now e) = leaderID e"
  "token (demoted_called now e) = token e" "revision (demoted_called now e) = revision e"
  "state (demoted_called now e) = StateFollower" "mu (demoted_called now e) = mu e"
  "ctx (demoted_called now e) = ctx e" "contexts (demoted_called now e) = contexts e"
  "cancel (demoted_called now e) = cancel e" "watcherRunning (demoted_called now e)"
  "gos (demoted_called now e) = gos (demoted now e)" "wg (demoted_called now e) = wg (demoted now e)"
  "leaderStartTime (demoted_called now e) = leaderStartTime (demoted now e)"
  "demoteCalls (demoted_called now e) = demoteCalls e @ (case onDemote e of None \<Rightarrow> [] | Some cb \<Rightarrow> [cb])"
  by (simp_all add: demoted_called_def)

lemma demote_outcome:
  "log_then (ctx e) e (and_then (becomeFollower now e) run_onDemote) =
     (if \<not> log_ok e then Panicked else if mu e then Blocked else Done (demoted_called now e))"
  by (auto simp: log_then_ctx becomeFollower_outcome run_onDemote_outcome demoted_called_def split: option.split)

locale demotion =
  fixes handler :: "int \<Rightarrow> kvElection \<Rightarrow> kvElection outcome"
  assumes handler_returns: "\<not> mu e \<Longrightarrow> log_ok e \<Longrightarrow> handler now e = Done (demoted_called now e)"
    and handler_waits: "log_ok e \<Longrightarrow> mu e \<Longrightarrow> handler now e = Blocked"
    and handler_panics: "\<not> log_ok e \<Longrightarrow> handler now e = Panicked"
begin

lemma handler_Done: "handler now e = Done e' \<longleftrightarrow> log_ok e \<and> \<not> mu e \<and> e' = demoted_called now e"
  by (cases "log_ok e"; cases "mu e") (auto simp: handler_returns handler_waits handler_panics)

lemma ends_leadership:
  assumes "handler now e = Done e'"
  shows "\<not> isLeader e'" and "state e' = StateFollower" and "\<not> mu e'"
    and "length (demoteCalls e') = length (demoteCalls e) + (if onDemote e = None then 0 else 1)"
  using assms by (auto simp: handler_Done split: option.split)

end

end
