(* ===== verification/Acquire.thy ===== *)
theory Acquire
  imports Election_State
begin

text \<open>
  Acquiring leadership: \<open>attemptAcquire\<close>, \<open>attemptPriorityTakeover\<close> and \<open>attemptAcquireWithRetry\<close> of
  \<open>leader/kv_election.go\<close> and the goroutine \<open>Start\<close> launches. \<open>uuid\<close> stands for the library call
  \<open>uuid.New().String()\<close>: the tokens it returns, in order. \<open>attemptAcquire\<close> and
  \<open>attemptPriorityTakeover\<close> call each other without a bound when the stored value does not
  decode, so their result is an option: \<open>None\<close> is a recursion that does not return.
\<close>

definition jitterMin :: duration where "jitterMin = 10 * Millisecond"
definition jitterMax :: duration where "jitterMax = 100 * Millisecond"
definition maxRetries :: nat where "maxRetries = 3"

definition ttl_opts :: "ElectionConfig \<Rightarrow> duration list" where
  "ttl_opts c = (if TTL c > 0 then [TTL c] else [])"

definition own_payload :: "kvElection \<Rightarrow> string \<Rightarrow> leadershipPayload" where
  "own_payload e tok = \<lparr>pl_ID = InstanceID (cfg e), pl_Token = tok, pl_Priority = Priority (cfg e)\<rparr>"

text \<open>
  One pass through \<open>attemptPriorityTakeover\<close>: either its result, or \<open>Again\<close> where the code calls
  \<open>attemptAcquire\<close> anew. Reading the value of a nil entry panics.
\<close>

datatype ('w, 'r) takeover = Again 'w | Result 'r

definition takeover_result :: "'s world \<Rightarrow> kvElection outcome \<Rightarrow> (error option \<times> 's world) outcome" where
  "takeover_result w oc = and_then oc (\<lambda>e. Done (None, w\<lparr>el := e\<rparr>))"

text \<open>
  The decoder's errors as the causes of wrapped ones, with the first words of their texts. The only place
  that wraps one follows a takeover and is never reached: the bytes it decodes are the encoder's own, which
  decode (\<open>own_payload_decodes\<close>).
\<close>

fun json_cause :: "json_error \<Rightarrow> error" where
  "json_cause SyntaxError = CustomError ''invalid character'' [] []"
| "json_cause UnmarshalTypeError = CustomError ''json: cannot unmarshal'' [] []"

definition takeover_body :: "'s KeyValue \<Rightarrow> int \<Rightarrow> string \<Rightarrow> 's world
    \<Rightarrow> ('s world, (error option \<times> 's world) outcome) takeover" where
  "takeover_body kv now payloadBytes w0 =
     (let e = el w0;
          (r, st) = Get kv (key e) (store w0);
          w = w0\<lparr>store := st\<rparr>
      in case r of
           Inl err \<Rightarrow> Result (Done (Some err, w))
         | Inr None \<Rightarrow> Result Panicked
         | Inr (Some entry) \<Rightarrow>
             (case Unmarshal_payload (Value entry) of
                Inl _ \<Rightarrow> Again w
              | Inr current \<Rightarrow>
                  if Priority (cfg e) \<le> pl_Priority current then
                    Result (Done
                      (Some (ErrorString (''current leader has equal or higher priority: ''
                               @ Itoa (pl_Priority current) @ '' >= '' @ Itoa (Priority (cfg e)))),
                       w\<lparr>el := e\<lparr>leaderID := pl_ID current, revision := Revision entry\<rparr>\<rparr>))
                  else
                    (let (u, st) = Update kv (key e) payloadBytes (Revision entry) [] (store w);
                         w = w\<lparr>store := st\<rparr>
                     in case u of
                          Inl err \<Rightarrow>
                            Result (Done (Some (WrapError ''priority takeover failed (revision mismatch)'' err), w))
                        | Inr newRev \<Rightarrow>
                            Result (log_then (ctx e) e
                              (case Unmarshal_payload payloadBytes of
                                 Inl err \<Rightarrow> Done (Some (WrapError ''failed to unmarshal payload after takeover'' (json_cause err)), w)
                               | Inr new \<Rightarrow>
                                   takeover_result w
                                     (becomeLeader now (pl_Token new) newRev
                                        (e\<lparr>revision := newRev, token := pl_Token new\<rparr>)))))))"

text \<open>The outcome of \<open>attemptAcquire\<close> when \<open>Create\<close> fails and no takeover is configured.\<close>

definition acquire_failed :: "error \<Rightarrow> 's world \<Rightarrow> (error option \<times> 's world) outcome" where
  "acquire_failed err w =
     log_then (ctx (el w)) (el w)
       (Done (Some err,
          w\<lparr>el := recordFailure (classifyErrorType (Some err)) (recordAcquireAttempt ''failed'' (el w))\<rparr>))"

definition acquire_won :: "int \<Rightarrow> string \<Rightarrow> u64 \<Rightarrow> 's world \<Rightarrow> (error option \<times> 's world) outcome" where
  "acquire_won now tok rv w =
     log_then (ctx (el w)) (el w)
       (and_then (becomeLeader now tok rv (recordAcquireAttempt ''success'' (el w)))
          (\<lambda>e. Done (None, w\<lparr>el := e\<rparr>)))"

definition wants_takeover :: "ElectionConfig \<Rightarrow> bool" where
  "wants_takeover c \<longleftrightarrow> AllowPriorityTakeover c \<and> Priority c > 0"

partial_function (option) attemptAcquire :: "(nat \<Rightarrow> string) \<Rightarrow> 's KeyValue \<Rightarrow> int \<Rightarrow> 's world
    \<Rightarrow> (error option \<times> 's world) outcome option" where
  "attemptAcquire uuid kv now w0 =
     (let tok = uuid (uuids w0);
          e = el w0;
          payloadBytes = json_Marshal (own_payload e tok);
          (r, st) = Create kv (key e) payloadBytes (ttl_opts (cfg e)) (store w0);
          w = w0\<lparr>store := st, uuids := uuids w0 + 1\<rparr>
      in case r of
           Inr rv \<Rightarrow> Some (acquire_won now tok rv w)
         | Inl err \<Rightarrow>
             if wants_takeover (cfg e) then
               (case takeover_body kv now payloadBytes w of
                  Result res \<Rightarrow> Some res
                | Again w' \<Rightarrow> attemptAcquire uuid kv now w')
             else Some (acquire_failed err w))"

definition attemptPriorityTakeover :: "(nat \<Rightarrow> string) \<Rightarrow> 's KeyValue \<Rightarrow> int \<Rightarrow> string \<Rightarrow> 's world
    \<Rightarrow> (error option \<times> 's world) outcome option" where
  "attemptPriorityTakeover uuid kv now payloadBytes w =
     (case takeover_body kv now payloadBytes w of
        Result res \<Rightarrow> Some res
      | Again w' \<Rightarrow> attemptAcquire uuid kv now w')"

text \<open>Recording a failed attempt, as every caller of \<open>attemptAcquire\<close> does.\<close>

definition record_failed :: "error \<Rightarrow> 's world \<Rightarrow> 's world" where
  "record_failed err w =
     w\<lparr>el := recordFailure (classifyErrorType (Some err)) (recordAcquireAttempt ''failed'' (el w))\<rparr>"

definition follow :: "int \<Rightarrow> 's world \<Rightarrow> 's world outcome" where
  "follow now w = and_then (becomeFollower now (el w)) (\<lambda>e. Done (w\<lparr>el := e\<rparr>))"

text \<open>The goroutine of \<open>Start\<close>.\<close>

definition startAcquire :: "(nat \<Rightarrow> string) \<Rightarrow> 's KeyValue \<Rightarrow> int \<Rightarrow> 's world \<Rightarrow> 's world outcome option" where
  "startAcquire uuid kv now w =
     Option.bind (attemptAcquire uuid kv now w) (\<lambda>oc. Some
       (and_then oc (\<lambda>(err, w').
          case err of None \<Rightarrow> Done w' | Some er \<Rightarrow> follow now (record_failed er w'))))"

text \<open>
  \<open>attemptAcquireWithRetry\<close>. Between two attempts the goroutine sleeps and anything may happen to
  the instance and the store: \<open>env i\<close> is what happens during the i-th sleep, \<open>clk i\<close> the clock at
  the i-th attempt. A context that is done when a sleep ends stops the loop before the next
  attempt, either in the \<open>select\<close> or in the check at the head of the loop. \<open>n\<close> counts the passes
  left: \<open>maxRetries + 1\<close> at the start.
\<close>

definition ctx_done :: "ctx_id option \<Rightarrow> 's world \<Rightarrow> bool" where
  "ctx_done c w = (case c of None \<Rightarrow> False | Some i \<Rightarrow> ctx_Err (get_ctx (el w) i) \<noteq> None)"

fun retry_loop :: "(nat \<Rightarrow> string) \<Rightarrow> 's KeyValue \<Rightarrow> (nat \<Rightarrow> 's world \<Rightarrow> 's world) \<Rightarrow> (nat \<Rightarrow> int)
    \<Rightarrow> ctx_id option \<Rightarrow> nat \<Rightarrow> nat \<Rightarrow> 's world \<Rightarrow> 's world outcome option" where
  "retry_loop uuid kv env clk c 0 retry w = Some (Done w)"
| "retry_loop uuid kv env clk c (Suc n) retry w =
     (if ctx_done c w then Some (Done w)
      else case attemptAcquire uuid kv (clk retry) w of
             None \<Rightarrow> None
           | Some Blocked \<Rightarrow> Some Blocked
           | Some Panicked \<Rightarrow> Some Panicked
           | Some (Done (None, w1)) \<Rightarrow> Some (Done w1)
           | Some (Done (Some err, w1)) \<Rightarrow>
               (let w2 = record_failed err w1 in
                if retry = maxRetries
                then Some (log_then c (el w2) (follow (clk retry) w2))
                else
                  (case logWithContext (el w2) c of
                     Done _ \<Rightarrow> retry_loop uuid kv env clk c n (retry + 1) (env retry w2)
                   | Blocked \<Rightarrow> Some Blocked
                   | Panicked \<Rightarrow> Some Panicked)))"

definition attemptAcquireWithRetry :: "(nat \<Rightarrow> string) \<Rightarrow> 's KeyValue \<Rightarrow> ('s world \<Rightarrow> 's world)
    \<Rightarrow> (nat \<Rightarrow> 's world \<Rightarrow> 's world) \<Rightarrow> (nat \<Rightarrow> int) \<Rightarrow> ctx_id option \<Rightarrow> 's world \<Rightarrow> 's world outcome option" where
  "attemptAcquireWithRetry uuid kv jitter env clk c w =
     (case logWithContext (el w) c of
        Done _ \<Rightarrow> retry_loop uuid kv env clk c (maxRetries + 1) 0 (jitter w)
      | Blocked \<Rightarrow> Some Blocked
      | Panicked \<Rightarrow> Some Panicked)"

subsection \<open>What an attempt achieves\<close>

text \<open>
  A won attempt: the instance leads with a token, and the store holds its own payload with that token
  at exactly the revision it remembers.
\<close>

definition won :: "('s \<Rightarrow> string \<Rightarrow> (string \<times> u64) option) \<Rightarrow> kvElection \<Rightarrow> string \<Rightarrow> 's world \<Rightarrow> bool" where
  "won contents e tok w \<longleftrightarrow>
     isLeader (el w) \<and> state (el w) = StateLeader \<and> leaderID (el w) = InstanceID (cfg e) \<and> token (el w) = tok \<and>
     cfg (el w) = cfg e \<and> key (el w) = key e \<and>
     contents (store w) (key e) = Some (json_Marshal (own_payload e tok), revision (el w))"

lemma own_payload_decodes:
  assumes "in_i64 (Priority (cfg e))" "ascii tok"
  shows "\<exists>p. Unmarshal_payload (json_Marshal (own_payload e tok)) = Inr p \<and> pl_Token p = tok"
  using json.dec_enc [of "own_payload e tok"] assms
  by (simp add: own_payload_def wf_payload_def sanitize_payload_def sanitize_ascii)

lemma acquire_won_Done:
  "acquire_won now tok rv w = Done (err, w') \<longleftrightarrow>
     log_ok (el w) \<and> \<not> mu (el w) \<and> err = None \<and>
     w' = w\<lparr>el := promoted now tok rv (recordAcquireAttempt ''success'' (el w))\<rparr>"
  by (auto simp: acquire_won_def log_then_ctx becomeLeader_outcome recordAcquireAttempt_def observe_eq log_ok_def)

lemma acquire_failed_Done:
  "acquire_failed err w = Done (er, w') \<longleftrightarrow> log_ok (el w) \<and> er = Some err \<and> w' = record_failed err w"
  by (auto simp: acquire_failed_def record_failed_def log_then_ctx)

lemma record_metrics_simps [simp]:
  "isLeader (recordAcquireAttempt st e) = isLeader e" "isLeader (recordFailure st e) = isLeader e"
  "cfg (recordAcquireAttempt st e) = cfg e" "cfg (recordFailure st e) = cfg e"
  "key (recordAcquireAttempt st e) = key e" "key (recordFailure st e) = key e"
  "mu (recordAcquireAttempt st e) = mu e" "mu (recordFailure st e) = mu e"
  "ctx (recordAcquireAttempt st e) = ctx e" "ctx (recordFailure st e) = ctx e"
  "contexts (recordAcquireAttempt st e) = contexts e" "contexts (recordFailure st e) = contexts e"
  "log_ok (recordAcquireAttempt st e) = log_ok e" "log_ok (recordFailure st e) = log_ok e"
  "state (recordAcquireAttempt st e) = state e" "state (recordFailure st e) = state e"
  "token (recordAcquireAttempt st e) = token e" "token (recordFailure st e) = token e"
  "revision (recordAcquireAttempt st e) = revision e" "revision (recordFailure st e) = revision e"
  "leaderID (recordAcquireAttempt st e) = leaderID e" "leaderID (recordFailure st e) = leaderID e"
  "gos (recordAcquireAttempt st e) = gos e" "gos (recordFailure st e) = gos e"
  "wg (recordAcquireAttempt st e) = wg e" "wg (recordFailure st e) = wg e"
  "cancel (recordAcquireAttempt st e) = cancel e" "cancel (recordFailure st e) = cancel e"
  "watcherRunning (recordAcquireAttempt st e) = watcherRunning e" "watcherRunning (recordFailure st e) = watcherRunning e"
  "onDemote (recordAcquireAttempt st e) = onDemote e" "onDemote (recordFailure st e) = onDemote e"
  "demoteCalls (recordAcquireAttempt st e) = demoteCalls e" "demoteCalls (recordFailure st e) = demoteCalls e"
  by (simp_all add: metric_defs log_ok_def)

text \<open>One round of the recursion, and the induction over the rounds of an attempt that returns.\<close>

definition acquire_once :: "(nat \<Rightarrow> string) \<Rightarrow> 's KeyValue \<Rightarrow> int \<Rightarrow> 's world
    \<Rightarrow> ('s world, (error option \<times> 's world) outcome) takeover" where
  "acquire_once uuid kv now w0 =
     (let tok = uuid (uuids w0);
          payloadBytes = json_Marshal (own_payload (el w0) tok);
          (r, st) = Create kv (key (el w0)) payloadBytes (ttl_opts (cfg (el w0))) (store w0);
          w = w0\<lparr>store := st, uuids := uuids w0 + 1\<rparr>
      in case r of
           Inr rv \<Rightarrow> Result (acquire_won now tok rv w)
         | Inl err \<Rightarrow>
             if wants_takeover (cfg (el w0)) then takeover_body kv now payloadBytes w
             else Result (acquire_failed err w))"

lemma attemptAcquire_once:
  "attemptAcquire uuid kv now w =
     (case acquire_once uuid kv now w of Result y \<Rightarrow> Some y | Again w' \<Rightarrow> attemptAcquire uuid kv now w')"
  by (subst attemptAcquire.simps)
    (simp add: acquire_once_def Let_def split: prod.split sum.split takeover.split)

lemma attemptAcquire_induct [consumes 1, case_names result again]:
  assumes "attemptAcquire uuid kv now w = Some y"
    and "\<And>w y. acquire_once uuid kv now w = Result y \<Longrightarrow> P w y"
    and "\<And>w w' y. acquire_once uuid kv now w = Again w' \<Longrightarrow> P w' y \<Longrightarrow> P w y"
  shows "P w y"
proof -
  let ?Q = "\<lambda>u k n w y. u = uuid \<and> k = kv \<and> n = now \<longrightarrow> P w y"
  have "?Q uuid kv now w y"
  proof (rule attemptAcquire.raw_induct [where P = ?Q, OF _ assms(1)], goal_cases)
    case (1 F u k n w y)
    have "(case acquire_once u k n w of Result y \<Rightarrow> Some y | Again w' \<Rightarrow> F u k n w') = Some y"
      using 1(2) by (simp add: acquire_once_def Let_def split: prod.splits sum.splits takeover.splits if_splits)
    with 1(1) [of u k n] assms(2,3) show ?case by (auto split: takeover.splits)
  qed
  then show ?thesis by simp
qed

context kv_store
begin

lemma takeover_won:
  assumes "ok (store w)" "last_rev (store w) < max_rev"
    and "takeover_body kv now bytes w = Result (Done (None, w'))"
  shows "\<exists>v r p new. contents (store w) (key (el w)) = Some (v, r) \<and> Unmarshal_payload v = Inr p \<and>
    pl_Priority p < Priority (cfg (el w)) \<and> Unmarshal_payload bytes = Inr new \<and>
    contents (store w') (key (el w)) = Some (bytes, revision (el w')) \<and> last_rev (store w) < revision (el w') \<and>
    isLeader (el w') \<and> state (el w') = StateLeader \<and> leaderID (el w') = InstanceID (cfg (el w)) \<and>
    token (el w') = pl_Token new \<and> cfg (el w') = cfg (el w) \<and> key (el w') = key (el w)"
proof -
  obtain r st where g: "Get kv (key (el w)) (store w) = (r, st)" by (cases "Get kv (key (el w)) (store w)")
  from g assms(3) obtain entry where r: "r = Inr (Some entry)"
    by (auto simp: takeover_body_def Let_def split: sum.splits option.splits)
  have c: "contents (store w) (key (el w)) = Some (Value entry, Revision entry)" using get_ok [OF assms(1)] g r by blast
  have f: "contents st = contents (store w)" "last_rev st = last_rev (store w)" "ok st"
    using get_frame [OF assms(1) g] by simp_all
  from g r assms(3) obtain p where p: "Unmarshal_payload (Value entry) = Inr p" "pl_Priority p < Priority (cfg (el w))"
    by (auto simp: takeover_body_def Let_def not_le split: sum.splits if_splits)
  obtain u st2 where u: "Update kv (key (el w)) bytes (Revision entry) [] st = (u, st2)"
    by (cases "Update kv (key (el w)) bytes (Revision entry) [] st")
  from g r p u assms(3) obtain newRev where n: "u = Inr newRev"
    by (auto simp: takeover_body_def Let_def split: sum.splits if_splits)
  have up: "contents st2 = (contents st)(key (el w) \<mapsto> (bytes, newRev))" "last_rev st < newRev"
    using update_ok [OF f(3)] f(2) assms(2) u n by auto
  from g r p u n assms(3) obtain new e' where new: "Unmarshal_payload bytes = Inr new"
    "becomeLeader now (pl_Token new) newRev ((el w)\<lparr>revision := newRev, token := pl_Token new\<rparr>) = Done e'"
    "w' = w\<lparr>store := st2, el := e'\<rparr>"
    by (auto simp: takeover_body_def Let_def takeover_result_def log_then_eq split: sum.splits if_splits)
  then have "e' = promoted now (pl_Token new) newRev ((el w)\<lparr>revision := newRev, token := pl_Token new\<rparr>)"
    by (auto simp: becomeLeader_outcome split: if_splits)
  with c p new up f show ?thesis by simp
qed

lemma takeover_again:
  assumes "ok (store w)" "takeover_body kv now bytes w = Again w'"
  shows "el w' = el w" "uuids w' = uuids w" "contents (store w') = contents (store w)" "last_rev (store w') = last_rev (store w)"
    "ok (store w')" "\<exists>v r err. contents (store w) (key (el w)) = Some (v, r) \<and> Unmarshal_payload v = Inl err"
proof -
  obtain r st where g: "Get kv (key (el w)) (store w) = (r, st)" by (cases "Get kv (key (el w)) (store w)")
  with assms(2) obtain entry err where r: "r = Inr (Some entry)" "Unmarshal_payload (Value entry) = Inl err" "w' = w\<lparr>store := st\<rparr>"
    by (auto simp: takeover_body_def Let_def split: sum.splits option.splits if_splits prod.splits)
  show "el w' = el w" "uuids w' = uuids w" "contents (store w') = contents (store w)" "last_rev (store w') = last_rev (store w)"
    "ok (store w')" using get_frame [OF assms(1) g] r by simp_all
  show "\<exists>v r err. contents (store w) (key (el w)) = Some (v, r) \<and> Unmarshal_payload v = Inl err"
    using get_ok [OF assms(1)] g r by blast
qed

lemma acquire_once_again:
  assumes "ok (store w)" "acquire_once uuid kv now w = Again w'"
  shows "el w' = el w" "uuids w' = uuids w + 1" "contents (store w') = contents (store w)"
    "last_rev (store w') = last_rev (store w)" "ok (store w')" "wants_takeover (cfg (el w))"
    "\<exists>v r err. contents (store w) (key (el w)) = Some (v, r) \<and> Unmarshal_payload v = Inl err"
proof -
  let ?b = "json_Marshal (own_payload (el w) (uuid (uuids w)))"
  obtain r st where c: "Create kv (key (el w)) ?b (ttl_opts (cfg (el w))) (store w) = (r, st)"
    by (cases "Create kv (key (el w)) ?b (ttl_opts (cfg (el w))) (store w)")
  with assms(2) obtain err where r: "r = Inl err" "wants_takeover (cfg (el w))"
    "takeover_body kv now ?b (w\<lparr>store := st, uuids := uuids w + 1\<rparr>) = Again w'"
    by (auto simp: acquire_once_def Let_def split: sum.splits if_splits)
  have f: "contents st = contents (store w)" "last_rev st = last_rev (store w)" "ok st"
    using create_err [OF assms(1)] c r(1) by blast+
  show "el w' = el w" "uuids w' = uuids w + 1" "contents (store w') = contents (store w)"
    "last_rev (store w') = last_rev (store w)" "ok (store w')" "wants_takeover (cfg (el w))"
    "\<exists>v r err. contents (store w) (key (el w)) = Some (v, r) \<and> Unmarshal_payload v = Inl err"
    using takeover_again [OF _ r(3)] f r(2) by simp_all
qed

lemma acquire_once_won:
  assumes "ok (store w)" "last_rev (store w) < max_rev" "\<And>n. ascii (uuid n)" "in_i64 (Priority (cfg (el w)))"
    and "acquire_once uuid kv now w = Result (Done (None, w'))"
  shows "won contents (el w) (uuid (uuids w)) w' \<and> last_rev (store w) < revision (el w') \<and>
    (\<forall>v r. contents (store w) (key (el w)) = Some (v, r) \<longrightarrow> wants_takeover (cfg (el w)) \<and>
      (\<exists>p. Unmarshal_payload v = Inr p \<and> pl_Priority p < Priority (cfg (el w))))"
proof -
  let ?tok = "uuid (uuids w)"
  let ?b = "json_Marshal (own_payload (el w) ?tok)"
  obtain r st where c: "Create kv (key (el w)) ?b (ttl_opts (cfg (el w))) (store w) = (r, st)"
    by (cases "Create kv (key (el w)) ?b (ttl_opts (cfg (el w))) (store w)")
  show ?thesis
  proof (cases r)
    case (Inr rv)
    with assms(5) c have "acquire_won now ?tok rv (w\<lparr>store := st, uuids := uuids w + 1\<rparr>) = Done (None, w')"
      by (simp add: acquire_once_def Let_def)
    then have w': "w' = w\<lparr>store := st, uuids := uuids w + 1, el := promoted now ?tok rv (recordAcquireAttempt ''success'' (el w))\<rparr>"
      by (simp add: acquire_won_Done)
    show ?thesis using create_ok [OF assms(1,2)] c Inr by (auto simp: won_def w')
  next
    case (Inl err)
    have f: "contents st = contents (store w)" "last_rev st = last_rev (store w)" "ok st"
      using create_err [OF assms(1)] c Inl by blast+
    have t: "wants_takeover (cfg (el w))" "takeover_body kv now ?b (w\<lparr>store := st, uuids := uuids w + 1\<rparr>) = Result (Done (None, w'))"
      using assms(5) c Inl by (auto simp: acquire_once_def acquire_failed_def log_then_eq Let_def split: if_splits)
    obtain v r p new where n: "contents (store w) (key (el w)) = Some (v, r)" "Unmarshal_payload v = Inr p"
      "pl_Priority p < Priority (cfg (el w))" "Unmarshal_payload ?b = Inr new"
      "contents (store w') (key (el w)) = Some (?b, revision (el w'))" "last_rev (store w) < revision (el w')"
      "isLeader (el w')" "state (el w') = StateLeader" "leaderID (el w') = InstanceID (cfg (el w))"
      "token (el w') = pl_Token new" "cfg (el w') = cfg (el w)" "key (el w') = key (el w)"
      using takeover_won [OF _ _ t(2)] f assms(2) by auto
    have "pl_Token new = ?tok" using own_payload_decodes [OF assms(4), of ?tok] n(4) assms(3) by auto
    with n t(1) show ?thesis by (auto simp: won_def)
  qed
qed

lemma acquire_wins:
  assumes "attemptAcquire uuid kv now w = Some y" "y = Done (None, w')"
    and "ok (store w)" "last_rev (store w) < max_rev" "\<And>n. ascii (uuid n)" "in_i64 (Priority (cfg (el w)))"
  shows "(\<exists>n \<ge> uuids w. won contents (el w) (uuid n) w') \<and> last_rev (store w) < revision (el w') \<and>
    (\<forall>v r. contents (store w) (key (el w)) = Some (v, r) \<longrightarrow> wants_takeover (cfg (el w)) \<and>
      (\<exists>p. Unmarshal_payload v = Inr p \<and> pl_Priority p < Priority (cfg (el w))))"
  using assms(1,2,3,4,6)
proof (induction rule: attemptAcquire_induct)
  case (result w y)
  then show ?case using acquire_once_won [of w uuid now w'] assms(5) by blast
next
  case (again w w1 y)
  note a = acquire_once_again [OF again(4,1)]
  have "(\<exists>n \<ge> uuids w + 1. won contents (el w) (uuid n) w') \<and> last_rev (store w) < revision (el w') \<and>
    (\<forall>v r. contents (store w) (key (el w)) = Some (v, r) \<longrightarrow> wants_takeover (cfg (el w)) \<and>
      (\<exists>p. Unmarshal_payload v = Inr p \<and> pl_Priority p < Priority (cfg (el w))))"
    using again(2) [OF again(3)] a again(5,6) by simp
  then show ?case by (meson le_add1 order_trans)
qed

end

subsection \<open>Attempts on the in-memory store\<close>

text \<open>
  C7: An attempt that succeeds makes the instance the leader of what is stored: it leads under a
  token it drew itself, the store holds its own payload with that token at exactly the revision it
  remembers, and that revision is larger than any handed out before. If the key was taken, takeover
  was allowed and the stored priority was strictly lower.
\<close>

theorem acquire_establishes_leadership:
  assumes "attemptAcquire uuid MockKeyValueAdapter now w = Some (Done (None, w'))"
    and "mock_ok (store w)" "rev_counter (store w) < max_rev" "\<forall>n. ascii (uuid n)" "in_i64 (Priority (cfg (el w)))"
  shows "(\<exists>n \<ge> uuids w. won mock_contents (el w) (uuid n) w') \<and> rev_counter (store w) < revision (el w') \<and>
    (\<forall>v r. mock_contents (store w) (key (el w)) = Some (v, r) \<longrightarrow> wants_takeover (cfg (el w)) \<and>
      (\<exists>p. Unmarshal_payload v = Inr p \<and> pl_Priority p < Priority (cfg (el w))))"
  using mock.acquire_wins [OF assms(1) refl assms(2,3)] assms(4,5) by blast

definition demo_candidate :: kvElection where
  "demo_candidate = (init_election (demo_config ''node-1'') False)\<lparr>contexts := [Background], ctx := Some 0, cancel := Some 0\<rparr>"

definition demo_uuid :: "nat \<Rightarrow> string" where
  "demo_uuid n = (if n = 0 then ''tok'' else ''other'')"

lemma demo_candidate_wins:
  "\<exists>w'. attemptAcquire demo_uuid MockKeyValueAdapter 3 \<lparr>el = demo_candidate, store = NewMockKeyValue, uuids = 0\<rparr> = Some (Done (None, w'))"
  by (subst attemptAcquire.simps)
    (simp add: demo_candidate_def init_election_def MockKeyValueAdapter_def mock_Create_def NewMockKeyValue_def Let_def
      acquire_won_Done log_ok_def can_log_def Background_def)

theorem acquire_establishes_leadership_witness:
  "\<exists>w'. attemptAcquire demo_uuid MockKeyValueAdapter 3 \<lparr>el = demo_candidate, store = NewMockKeyValue, uuids = 0\<rparr> = Some (Done (None, w')) \<and>
    (\<exists>n. won mock_contents demo_candidate (demo_uuid n) w') \<and> 0 < revision (el w')"
proof -
  let ?w = "\<lparr>el = demo_candidate, store = NewMockKeyValue, uuids = 0\<rparr>"
  obtain w' where w': "attemptAcquire demo_uuid MockKeyValueAdapter 3 ?w = Some (Done (None, w'))"
    using demo_candidate_wins by blast
  have "mock_ok (store ?w)" "rev_counter (store ?w) < max_rev" "rev_counter (store ?w) = 0"
    by (simp_all add: NewMockKeyValue_def mock_ok_def)
  moreover have "\<forall>n. ascii (demo_uuid n)" by (auto simp: demo_uuid_def)
  moreover have "in_i64 (Priority (cfg (el ?w)))" by (simp add: demo_candidate_def init_election_def in_i64_def)
  ultimately show ?thesis using acquire_establishes_leadership [OF w'] w' by auto
qed

lemma mock_malformed_again:
  assumes "mock_ok (store w)" "\<not> failGet (store w)" "data (store w) (key (el w)) = Some me"
    and "Unmarshal_payload (me_Value me) = Inl err" "wants_takeover (cfg (el w))"
  shows "acquire_once uuid MockKeyValueAdapter now w = Again (w\<lparr>uuids := uuids w + 1\<rparr>)"
  using assms
  by (auto simp: acquire_once_def takeover_body_def MockKeyValueAdapter_def mock_Create_def mock_Get_def mock_ok_def
      MockEntryAdapter_def Let_def split: if_splits)

lemma mock_malformed_diverges:
  assumes "attemptAcquire uuid MockKeyValueAdapter now w = Some y"
    and "mock_ok (store w)" "\<not> failGet (store w)" "data (store w) (key (el w)) = Some me"
    and "Unmarshal_payload (me_Value me) = Inl err" "wants_takeover (cfg (el w))"
  shows False
  using assms
proof (induction rule: attemptAcquire_induct)
  case (result w y)
  then show ?case using mock_malformed_again [OF result(2-6)] by simp
next
  case (again w w' y)
  then show ?case using mock_malformed_again [OF again(3-7), of uuid now] by auto
qed

text \<open>
  C23: An attempt returns unless takeover is configured and the key holds a value that does not
  decode: exactly then the two functions call each other for ever.
\<close>

theorem acquire_returns_iff:
  assumes "mock_ok (store w)"
  shows "attemptAcquire uuid MockKeyValueAdapter now w = None \<longleftrightarrow>
    wants_takeover (cfg (el w)) \<and> \<not> failGet (store w) \<and>
    (\<exists>v r err. mock_contents (store w) (key (el w)) = Some (v, r) \<and> Unmarshal_payload v = Inl err)"
    (is "?none \<longleftrightarrow> ?bad")
proof
  assume ?none
  then obtain w' where a: "acquire_once uuid MockKeyValueAdapter now w = Again w'"
    using attemptAcquire_once [of uuid MockKeyValueAdapter now w] by (auto split: takeover.splits)
  have "\<not> failGet (store w)"
    using a assms by (auto simp: acquire_once_def takeover_body_def MockKeyValueAdapter_def mock_Create_def mock_Get_def
        mock_ok_def Let_def split: if_splits option.splits sum.splits)
  with mock.acquire_once_again(6,7) [OF assms a] show ?bad by blast
next
  assume ?bad
  then obtain me err where "data (store w) (key (el w)) = Some me" "Unmarshal_payload (me_Value me) = Inl err"
    "wants_takeover (cfg (el w))" "\<not> failGet (store w)"
    by (auto simp: mock_contents_def)
  then show ?none using mock_malformed_diverges [of uuid now w _ me err] assms by (cases "attemptAcquire uuid MockKeyValueAdapter now w") auto
qed

definition takeover_candidate :: kvElection where
  "takeover_candidate = demo_candidate\<lparr>cfg := (demo_config ''node-1'')\<lparr>AllowPriorityTakeover := True, Priority := 5\<rparr>\<rparr>"

theorem acquire_returns_iff_witness:
  "attemptAcquire demo_uuid MockKeyValueAdapter 3
     \<lparr>el = takeover_candidate, store = snd (mock_Create ''demo-group'' ''garbage'' NewMockKeyValue), uuids = 0\<rparr> = None"
proof -
  let ?w = "\<lparr>el = takeover_candidate, store = snd (mock_Create ''demo-group'' ''garbage'' NewMockKeyValue), uuids = 0\<rparr>"
  have "mock_ok (store ?w)" by (simp add: mock_Create_def NewMockKeyValue_def mock_ok_def Let_def)
  moreover have "mock_contents (store ?w) (key (el ?w)) = Some (''garbage'', 1)" "\<not> failGet (store ?w)"
    "wants_takeover (cfg (el ?w))"
    by (simp_all add: mock_Create_def NewMockKeyValue_def mock_contents_def takeover_candidate_def demo_candidate_def
        init_election_def wants_takeover_def Let_def)
  moreover have "Unmarshal_payload ''garbage'' = Inl SyntaxError" by code_simp
  ultimately show ?thesis using acquire_returns_iff [of ?w demo_uuid 3] by auto
qed

subsection \<open>Retrying\<close>

lemma acquire_once_leads:
  "acquire_once uuid kv now w = Result (Done (None, w')) \<Longrightarrow> isLeader (el w') \<and> state (el w') = StateLeader"
  by (auto simp: acquire_once_def takeover_body_def takeover_result_def acquire_won_Done acquire_failed_Done
      becomeLeader_outcome log_then_eq Let_def split: prod.splits sum.splits option.splits if_splits)

lemma attemptAcquire_leads:
  assumes "attemptAcquire uuid kv now w = Some y" "y = Done (None, w')"
  shows "isLeader (el w') \<and> state (el w') = StateLeader"
  using assms
proof (induction rule: attemptAcquire_induct)
  case (result w y)
  then show ?case using acquire_once_leads [of uuid kv now w w'] by simp
qed

lemma follow_Done: "follow now w = Done w' \<Longrightarrow> \<not> isLeader (el w') \<and> state (el w') = StateFollower \<and> watcherRunning (el w')"
  by (auto simp: follow_def becomeFollower_outcome split: if_splits)

text \<open>
  What a round of retries needs: the lock is free whenever the goroutine asks for it (so it is never kept
  waiting for ever), its two contexts can be logged, and takeover is not configured.
\<close>

definition retry_ready :: "ctx_id option \<Rightarrow> 's world \<Rightarrow> bool" where
  "retry_ready c w \<longleftrightarrow> \<not> wants_takeover (cfg (el w)) \<and> \<not> mu (el w) \<and> log_ok (el w) \<and> can_log c (contexts (el w))"

lemma retry_ready_record_failed [simp]: "retry_ready c (record_failed err w) = retry_ready c w"
  by (simp add: retry_ready_def record_failed_def)

lemma attemptAcquire_ready:
  assumes "retry_ready c w"
  shows "\<exists>err w'. attemptAcquire uuid kv now w = Some (Done (err, w')) \<and> (err \<noteq> None \<longrightarrow> retry_ready c w')"
  using assms
  by (subst attemptAcquire.simps)
    (auto simp: retry_ready_def Let_def acquire_won_Done acquire_failed_Done record_failed_def split: prod.split sum.split)

lemma case_logWithContext:
  "can_log c (contexts e) \<Longrightarrow> (case logWithContext e c of Done _ \<Rightarrow> a | Blocked \<Rightarrow> b | Panicked \<Rightarrow> d) = a"
  using log_then_eq [of c e "Done ()"] by (cases "logWithContext e c") (simp_all add: log_then_def)

lemma follow_ready: "retry_ready c w \<Longrightarrow> \<exists>w'. follow now w = Done w'"
  by (simp add: follow_def retry_ready_def becomeFollower_outcome)

lemma retry_loop_returns:
  assumes "retry_ready c w" "\<forall>i x. retry_ready c x \<longrightarrow> retry_ready c (env i x)"
  shows "\<exists>w'. retry_loop uuid kv env clk c n retry w = Some (Done w')"
  using assms(1)
proof (induction n arbitrary: retry w)
  case (Suc n)
  obtain err w1 where y: "attemptAcquire uuid kv (clk retry) w = Some (Done (err, w1))" "err \<noteq> None \<longrightarrow> retry_ready c w1"
    using attemptAcquire_ready [OF Suc.prems] by blast
  show ?case
  proof (cases err)
    case None
    with y show ?thesis by simp
  next
    case (Some er)
    define w2 where "w2 = record_failed er w1"
    have r: "retry_ready c w2" using y(2) Some by (simp add: w2_def)
    then have l: "can_log c (contexts (el w2))" by (simp add: retry_ready_def)
    obtain w3 where w3: "follow (clk retry) w2 = Done w3" using follow_ready [OF r] by blast
    have "\<exists>w'. retry_loop uuid kv env clk c n (retry + 1) (env retry w2) = Some (Done w')"
      using Suc.IH assms(2) r by blast
    with y(1) Some w3 l show ?thesis
      by (auto simp: w2_def [symmetric] log_then_eq case_logWithContext)
  qed
qed simp

lemma retry_loop_result:
  assumes "retry_loop uuid kv env clk c n retry w = Some (Done w')" "n + retry = maxRetries + 1" "0 < n"
  shows "ctx_done c w' \<or> isLeader (el w') \<or> state (el w') = StateFollower \<and> watcherRunning (el w')"
  using assms
proof (induction uuid kv env clk c n retry w rule: retry_loop.induct)
  case (2 uuid kv env clk c n retry w)
  then show ?case
    by (auto simp: Let_def log_then_eq maxRetries_def dest: follow_Done attemptAcquire_leads [OF _ refl]
        split: if_splits option.splits outcome.splits prod.splits)
qed simp



end
