(* ===== verification/Fencing.thy ===== *)
theory Fencing
  imports Election_State
begin

text \<open>
  Fencing: \<open>validateToken\<close>, \<open>ValidateToken\<close> and \<open>ValidateTokenOrDemote\<close> of \<open>leader/kv_election.go\<close>,
  \<open>validationLoop\<close> and \<open>handleValidationFailure\<close> of \<open>leader/fencing.go\<close>, and the scheme the periodic
  loops of the program share: a list of events of which the last one may end the loop.
\<close>

subsection \<open>Loops driven by a ticker\<close>

text \<open>
  A loop of the program selects on \<open>ctx.Done()\<close> and a ticker. An event of the list is one round of
  the \<open>select\<close>. Every event carries the change \<open>env\<close> that the rest of the program made to the
  instance and the store while the loop waited. A pass either goes on with a number of
  consecutive failures or returns; a list that is used up is a loop still waiting.
\<close>

datatype ('w, 't) loop_event = CtxDone "'w \<Rightarrow> 'w" | Tick "'w \<Rightarrow> 'w" 't

datatype 'w loop = Continue int 'w | Return 'w

fun loop_world :: "'w loop \<Rightarrow> 'w" where
  "loop_world (Continue n w) = w"
| "loop_world (Return w) = w"

fun run_loop :: "('t \<Rightarrow> int \<Rightarrow> 'w \<Rightarrow> 'w loop outcome) \<Rightarrow> ('w, 't) loop_event list \<Rightarrow> int \<Rightarrow> 'w
    \<Rightarrow> 'w loop outcome" where
  "run_loop pass [] n w = Done (Continue n w)"
| "run_loop pass (CtxDone env # evs) n w = Done (Return (env w))"
| "run_loop pass (Tick env t # evs) n w =
     and_then (pass t n (env w)) (\<lambda>r.
       case r of
         Return w' \<Rightarrow> Done (Return w')
       | Continue n' w' \<Rightarrow> run_loop pass evs n' w')"

text \<open>
  A property that every change of the environment and every pass keep holds when the loop ends
  or waits.
\<close>

fun event_env :: "('w, 't) loop_event \<Rightarrow> 'w \<Rightarrow> 'w" where
  "event_env (CtxDone env) = env"
| "event_env (Tick env t) = env"

lemma run_loop_invariant:
  assumes "run_loop pass evs n w = Done r" "P w"
    and "\<forall>ev \<in> set evs. \<forall>w. P w \<longrightarrow> P (event_env ev w)"
    and "\<forall>t n w r. P w \<longrightarrow> pass t n w = Done r \<longrightarrow> P (loop_world r)"
  shows "P (loop_world r)"
  using assms
proof (induction pass evs n w rule: run_loop.induct)
  case (3 pass env t evs n w)
  then obtain a where a: "pass t n (env w) = Done a"
    "(case a of Return w' \<Rightarrow> Done (Return w') | Continue n' w' \<Rightarrow> run_loop pass evs n' w') = Done r"
    by auto
  have "P (env w)" using 3(3,4) by auto
  with 3(5) a(1) have "P (loop_world a)" by blast
  with 3 a show ?case by (cases a) auto
qed auto

text \<open>
  The contract of a pass that counts failures: a failing pass below the limit goes on with one
  failure more, and one that reaches the limit returns with the leadership ended. Then a run of
  failing ticks as long as the limit ends the loop.
\<close>

locale counted_loop =
  fixes pass :: "'t \<Rightarrow> int \<Rightarrow> 'w \<Rightarrow> 'w loop outcome"
    and limit :: int
    and fails :: "'t \<Rightarrow> 'w \<Rightarrow> bool"
    and running :: "'w \<Rightarrow> bool"
    and stopped :: "'w \<Rightarrow> bool"
  assumes fail_goes_on: "running w \<Longrightarrow> fails t w \<Longrightarrow> n + 1 < limit \<Longrightarrow>
      \<exists>w'. pass t n w = Done (Continue (n + 1) w') \<and> running w'"
    and fail_ends: "running w \<Longrightarrow> fails t w \<Longrightarrow> limit \<le> n + 1 \<Longrightarrow>
      \<exists>w'. pass t n w = Done (Return w') \<and> stopped w'"
begin

definition failing :: "('w, 't) loop_event \<Rightarrow> bool" where
  "failing ev \<longleftrightarrow> (\<exists>env t. ev = Tick env t \<and> (\<forall>w. running w \<longrightarrow> running (env w) \<and> fails t (env w)))"

lemma fails_out:
  assumes "running w" "\<forall>ev \<in> set evs. failing ev" "limit \<le> n + int (length evs)" "n < limit"
  shows "\<exists>w'. run_loop pass evs n w = Done (Return w') \<and> stopped w'"
  using assms
proof (induction evs arbitrary: n w)
  case (Cons ev evs)
  obtain env t where ev: "ev = Tick env t" "running (env w)" "fails t (env w)"
    using Cons.prems(1,2) by (auto simp: failing_def)
  show ?case
  proof (cases "limit \<le> n + 1")
    case True
    with fail_ends [OF ev(2,3)] ev(1) show ?thesis by fastforce
  next
    case False
    then obtain w' where "pass t n (env w) = Done (Continue (n + 1) w')" "running w'"
      using fail_goes_on [OF ev(2,3), of n] by auto
    with Cons.IH [of w' "n + 1"] Cons.prems ev(1) False show ?thesis by auto
  qed
qed simp

lemma goes_on:
  assumes "running w" "\<forall>ev \<in> set evs. failing ev" "n + int (length evs) < limit"
  shows "\<exists>w'. run_loop pass evs n w = Done (Continue (n + int (length evs)) w') \<and> running w'"
  using assms
proof (induction evs arbitrary: n w)
  case (Cons ev evs)
  obtain env t where ev: "ev = Tick env t" "running (env w)" "fails t (env w)"
    using Cons.prems(1,2) by (auto simp: failing_def)
  obtain w' where "pass t n (env w) = Done (Continue (n + 1) w')" "running w'"
    using fail_goes_on [OF ev(2,3), of n] Cons.prems(3) by auto
  with Cons.IH [of w' "n + 1"] Cons.prems ev(1) show ?case by (auto simp: algebra_simps)
qed simp

end

subsection \<open>Validating the token\<close>

text \<open>\<open>encoding/json\<close>'s own errors are passed on unwrapped.\<close>

datatype verror = VErr error | VJson json_error

definition tve :: "kvElection \<Rightarrow> string \<Rightarrow> string \<Rightarrow> error option \<Rightarrow> verror" where
  "tve e kvToken reason err = VErr (TokenValidationError (token e) kvToken (InstanceID (cfg e)) reason err)"

definition log_ctx :: "kvElection \<Rightarrow> Context \<Rightarrow> 'a outcome \<Rightarrow> 'a outcome" where
  "log_ctx e c k = and_then (logFields e c) (\<lambda>_. k)"

lemma log_ctx_eq: "log_ctx e c k = (if ctx_corr c = Some CorrOther then Panicked else k)"
  by (simp add: log_ctx_def and_then_logFields)

text \<open>A mismatch is logged and counted.\<close>

definition token_mismatch :: "Context \<Rightarrow> verror \<Rightarrow> 's world \<Rightarrow> ((bool \<times> verror option) \<times> 's world) outcome" where
  "token_mismatch c err w =
     log_ctx (el w) c
       (Done ((False, Some err), w\<lparr>el := observe (IncTokenValidationFailures (getMetricsLabels (el w))) (el w)\<rparr>))"

text \<open>What \<open>validateToken\<close> does with the members of the stored object.\<close>

definition check_payload :: "Context \<Rightarrow> (string \<rightharpoonup> json) \<Rightarrow> 's world
    \<Rightarrow> ((bool \<times> verror option) \<times> 's world) outcome" where
  "check_payload c payload w =
     (let e = el w in
      case payload ''token'' of
        None \<Rightarrow> Done ((False, Some (tve e [] ''no token in KV'' None)), w)
      | Some (JStr kvToken) \<Rightarrow>
          if token e \<noteq> kvToken then token_mismatch c (tve e kvToken ''token mismatch'' None) w
          else
            (case payload ''id'' of
               None \<Rightarrow> Done ((False, Some (tve e kvToken ''missing leader ID in payload'' None)), w)
             | Some (JStr lid) \<Rightarrow>
                 if lid \<noteq> InstanceID (cfg e) then token_mismatch c (tve e kvToken ''leader ID mismatch'' None) w
                 else Done ((True, None), w)
             | Some _ \<Rightarrow> Done ((False, Some (tve e kvToken ''invalid leader ID type'' None)), w))
      | Some _ \<Rightarrow> Done ((False, Some (tve e [] ''invalid token type'' None)), w))"

text \<open>
  \<open>late\<close> is the error of the context when the second \<open>select\<close> finds it done before the read of the
  store has come back.
\<close>

definition validateToken :: "'s KeyValue \<Rightarrow> Context \<Rightarrow> error option \<Rightarrow> 's world
    \<Rightarrow> ((bool \<times> verror option) \<times> 's world) outcome" where
  "validateToken kv c late w =
     (let e = el w in
      if token e = [] then log_ctx e c (Done ((False, Some (tve e [] ''no token'' None)), w))
      else
        (case ctx_Err c of
           Some err \<Rightarrow> Done ((False, Some (tve e [] ''validation timeout'' (Some err))), w)
         | None \<Rightarrow>
             (case late of
                Some err \<Rightarrow> Done ((False, Some (tve e [] ''validation timeout'' (Some err))), w)
              | None \<Rightarrow>
                  (let (r, st) = Get kv (key e) (store w);
                       w = w\<lparr>store := st\<rparr>
                   in case r of
                        Inl err \<Rightarrow> Done ((False, Some (tve e [] ''failed to get token from KV'' (Some err))), w)
                      | Inr None \<Rightarrow> Done ((False, Some (tve e [] ''no token in KV'' None)), w)
                      | Inr (Some entry) \<Rightarrow>
                          (case Unmarshal_map (Value entry) of
                             Inl err \<Rightarrow> Done ((False, Some (VJson err)), w)
                           | Inr payload \<Rightarrow> check_payload c payload w)))))"

definition ValidateToken :: "'s KeyValue \<Rightarrow> Context \<Rightarrow> error option \<Rightarrow> 's world
    \<Rightarrow> ((bool \<times> verror option) \<times> 's world) outcome" where
  "ValidateToken kv c late w =
     (if \<not> isLeader (el w) then Done ((False, Some (VErr (Sentinel ErrNotLeader))), w)
      else validateToken kv c late w)"

definition handleValidationFailure :: "int \<Rightarrow> kvElection \<Rightarrow> kvElection outcome" where
  "handleValidationFailure now e =
     log_then (ctx e) e (and_then (becomeFollower now e) run_onDemote)"

definition ValidateTokenOrDemote :: "'s KeyValue \<Rightarrow> int \<Rightarrow> Context \<Rightarrow> error option \<Rightarrow> 's world
    \<Rightarrow> (bool \<times> 's world) outcome" where
  "ValidateTokenOrDemote kv now c late w =
     and_then (ValidateToken kv c late w) (\<lambda>((isValid, err), w1).
       if err \<noteq> None \<or> \<not> isValid then
         (if isLeader (el w1)
          then and_then (handleValidationFailure now (el w1)) (\<lambda>e. Done (False, w1\<lparr>el := e\<rparr>))
          else Done (False, w1))
       else Done (True, w1))"

subsection \<open>The validation loop\<close>

definition defaultValidationInterval :: duration where "defaultValidationInterval = 5 * Second"
definition defaultValidationTimeout :: duration where "defaultValidationTimeout = 2 * Second"
definition maxValidationFailures :: int where "maxValidationFailures = 2"

definition validation_interval :: "ElectionConfig \<Rightarrow> duration" where
  "validation_interval c = (if ValidationInterval c > 0 then ValidationInterval c else defaultValidationInterval)"

text \<open>
  One tick: \<open>vt_late\<close> is the error of the derived context if it ends during the read, \<open>vt_now\<close> the
  clock if the pass demotes.
\<close>

record validation_tick =
  vt_late :: "error option"
  vt_now :: int

definition count_validation_failure :: "kvElection \<Rightarrow> kvElection" where
  "count_validation_failure e = observe (IncTokenValidationFailures (getMetricsLabels e)) e"

definition demote_and_return :: "int \<Rightarrow> 's world \<Rightarrow> 's world loop outcome" where
  "demote_and_return now w =
     and_then (handleValidationFailure now (el w)) (\<lambda>e. Done (Return (w\<lparr>el := e\<rparr>)))"

definition validation_pass :: "'s KeyValue \<Rightarrow> ctx_id \<Rightarrow> validation_tick \<Rightarrow> int \<Rightarrow> 's world \<Rightarrow> 's world loop outcome" where
  "validation_pass kv c t n w =
     (if \<not> isLeader (el w) then Done (Return w)
      else
        and_then (validateToken kv (get_ctx (el w) c) (vt_late t) w) (\<lambda>((isValid, err), w1).
          if err \<noteq> None then
            (let n = n + 1 in
             log_then (Some c) (el w1)
               (let w2 = w1\<lparr>el := count_validation_failure (el w1)\<rparr> in
                if maxValidationFailures \<le> n then demote_and_return (vt_now t) w2
                else Done (Continue n w2)))
          else if \<not> isValid then
            log_then (Some c) (el w1)
              (demote_and_return (vt_now t) (w1\<lparr>el := count_validation_failure (el w1)\<rparr>))
          else if n > 0 then log_then (Some c) (el w1) (Done (Continue 0 w1))
          else Done (Continue n w1)))"

text \<open>Selecting on a nil context panics.\<close>

definition validationLoop :: "'s KeyValue \<Rightarrow> ctx_id option \<Rightarrow> ('s world, validation_tick) loop_event list
    \<Rightarrow> 's world \<Rightarrow> 's world loop outcome" where
  "validationLoop kv c evs w =
     (case c of None \<Rightarrow> Panicked | Some i \<Rightarrow> run_loop (validation_pass kv i) evs 0 w)"

subsection \<open>What validation decides\<close>

interpretation validation_failure: demotion handleValidationFailure
  by unfold_locales (simp_all add: handleValidationFailure_def demote_outcome)

text \<open>Validation reads the store and may count a failure; it changes nothing else.\<close>

definition same_but_metrics :: "kvElection \<Rightarrow> kvElection \<Rightarrow> bool" where
  "same_but_metrics e e' \<longleftrightarrow> e\<lparr>metrics := []\<rparr> = e'\<lparr>metrics := []\<rparr>"

lemma same_but_metrics_refl [simp]: "same_but_metrics e e"
  by (simp add: same_but_metrics_def)

lemma same_but_metrics_observe [simp]: "same_but_metrics e (observe m e)"
  by (simp add: same_but_metrics_def observe_eq)

lemma same_but_metricsD:
  assumes "same_but_metrics e e'"
  shows "isLeader e' = isLeader e" "mu e' = mu e" "log_ok e' = log_ok e" "ctx e' = ctx e" "get_ctx e' = get_ctx e"
    "state e' = state e" "revision e' = revision e" "token e' = token e" "cfg e' = cfg e" "key e' = key e"
    "onDemote e' = onDemote e" "demoteCalls e' = demoteCalls e" "gos e' = gos e" "wg e' = wg e"
    "leaderID e' = leaderID e" "contexts e' = contexts e"
  using assms by (cases e; cases e'; simp add: same_but_metrics_def log_ok_def get_ctx_def fun_eq_iff)+

lemma token_mismatch_Done:
  "token_mismatch c err w = Done (r, w') \<longleftrightarrow>
     ctx_corr c \<noteq> Some CorrOther \<and> r = (False, Some err) \<and>
     w' = w\<lparr>el := observe (IncTokenValidationFailures (getMetricsLabels (el w))) (el w)\<rparr>"
  by (auto simp: token_mismatch_def log_ctx_eq)

lemma check_payload_true:
  "check_payload c payload w = Done ((True, err), w') \<longleftrightarrow>
     payload ''token'' = Some (JStr (token (el w))) \<and> payload ''id'' = Some (JStr (InstanceID (cfg (el w)))) \<and>
     err = None \<and> w' = w"
  by (auto simp: check_payload_def Let_def token_mismatch_Done split: option.splits json.splits)

lemma check_payload_frame:
  assumes "check_payload c payload w = Done ((v, err), w')"
  shows "(v \<longleftrightarrow> err = None) \<and> same_but_metrics (el w) (el w') \<and> store w' = store w \<and> uuids w' = uuids w"
  using assms
  by (auto simp: check_payload_def Let_def token_mismatch_Done split: option.splits json.splits if_splits)

lemma validateToken_frame:
  assumes "validateToken kv c late w = Done ((v, err), w')"
  shows "(v \<longleftrightarrow> err = None) \<and> same_but_metrics (el w) (el w') \<and> uuids w' = uuids w"
  using assms
  by (auto simp: validateToken_def Let_def log_ctx_eq split: option.splits if_splits sum.splits prod.splits
      dest!: check_payload_frame)

text \<open>The exact condition under which a token is valid.\<close>

definition token_current :: "'s KeyValue \<Rightarrow> 's world \<Rightarrow> bool" where
  "token_current kv w \<longleftrightarrow>
     token (el w) \<noteq> [] \<and>
     (case fst (Get kv (key (el w)) (store w)) of
        Inr (Some entry) \<Rightarrow>
          (case Unmarshal_map (Value entry) of
             Inr payload \<Rightarrow> payload ''token'' = Some (JStr (token (el w))) \<and>
               payload ''id'' = Some (JStr (InstanceID (cfg (el w))))
           | Inl _ \<Rightarrow> False)
      | _ \<Rightarrow> False)"

lemma validateToken_true:
  "validateToken kv c late w = Done ((True, err), w') \<longleftrightarrow>
     token_current kv w \<and> ctx_Err c = None \<and> late = None \<and> err = None \<and>
     w' = w\<lparr>store := snd (Get kv (key (el w)) (store w))\<rparr>"
  by (auto simp: validateToken_def token_current_def Let_def log_ctx_eq check_payload_true
      split: option.splits sum.splits prod.splits)

lemma validateToken_value:
  assumes r: "validateToken kv c late w = Done ((v, err), w')"
  shows "v \<longleftrightarrow> token_current kv w \<and> ctx_Err c = None \<and> late = None"
proof (cases v)
  case True
  with r show ?thesis by (simp add: validateToken_true)
next
  case False
  have "validateToken kv c late w = Done ((True, None), w\<lparr>store := snd (Get kv (key (el w)) (store w))\<rparr>)"
    if "token_current kv w" "ctx_Err c = None" "late = None"
    using that by (simp add: validateToken_true)
  with r False show ?thesis by fastforce
qed

lemma validateToken_returns:
  assumes "ctx_corr c \<noteq> Some CorrOther"
  shows "\<exists>v err w'. validateToken kv c late w = Done ((v, err), w')"
  using assms
  by (auto simp: validateToken_def check_payload_def token_mismatch_def Let_def log_ctx_eq
      split: option.split sum.split prod.split json.split)

text \<open>
  C5: Validation is sound, complete and fail-safe. It reports a valid token exactly when the
  instance holds a token, the context is not done, and the value now stored under the key decodes
  to an object whose token and id are this instance's own; in every other case it reports invalid
  together with an error. Apart from the failure counter it leaves the instance as it is.
\<close>

theorem validateToken_sound_complete:
  assumes "ctx_corr c \<noteq> Some CorrOther"
  shows "\<exists>v err w'. validateToken kv c late w = Done ((v, err), w') \<and>
    (v \<longleftrightarrow> token_current kv w \<and> ctx_Err c = None \<and> late = None) \<and>
    (v \<longleftrightarrow> err = None) \<and> same_but_metrics (el w) (el w')"
proof -
  obtain v err w' where r: "validateToken kv c late w = Done ((v, err), w')"
    using validateToken_returns [OF assms] by metis
  have "v \<longleftrightarrow> token_current kv w \<and> ctx_Err c = None \<and> late = None"
    by (rule validateToken_value [OF r])
  with r validateToken_frame [OF r] show ?thesis by blast
qed

text \<open>A leader whose entry is in the mock store, used as the concrete input below.\<close>

definition demo_leader :: kvElection where
  "demo_leader =
     (init_election (demo_config ''node-1'') False)
       \<lparr>isLeader := True, leaderID := ''node-1'', token := ''tok'', revision := 1, state := StateLeader,
        contexts := [Background], ctx := Some 0, cancel := Some 0, leaderStartTime := Some 0,
        onDemote := Some 7\<rparr>"

definition demo_store :: "string \<Rightarrow> string \<Rightarrow> MockKeyValue" where
  "demo_store k v = snd (mock_Create k v NewMockKeyValue)"

definition demo_world :: "string \<Rightarrow> MockKeyValue world" where
  "demo_world v = \<lparr>el = demo_leader, store = demo_store (key demo_leader) v, uuids = 0\<rparr>"

definition demo_value :: string where
  "demo_value = json_Marshal \<lparr>pl_ID = ''node-1'', pl_Token = ''tok'', pl_Priority = 0\<rparr>"

lemma demo_token_current: "token_current MockKeyValueAdapter (demo_world demo_value)"
  by code_simp

theorem validateToken_sound_complete_witness:
  "\<exists>v err w'. validateToken MockKeyValueAdapter Background None (demo_world demo_value) = Done ((v, err), w') \<and>
    v \<and> err = None \<and> same_but_metrics (el (demo_world demo_value)) (el w')"
proof -
  have "ctx_corr Background \<noteq> Some CorrOther" "ctx_Err Background = None" by (simp_all add: Background_def)
  with validateToken_sound_complete [of Background MockKeyValueAdapter None "demo_world demo_value"] demo_token_current
  show ?thesis by (simp) metis
qed

text \<open>
  C9: \<open>ValidateTokenOrDemote\<close> on an instance that can log and is not locked: it returns true only
  for a leader whose token is current, and the instance is left leading; when it returns false,
  the instance is no leader afterwards, and one that led before has had its demotion callback run
  exactly once.
\<close>

theorem ValidateTokenOrDemote_safe:
  assumes "\<not> mu (el w)" "log_ok (el w)" "ctx_corr c \<noteq> Some CorrOther"
  shows "\<exists>b w'. ValidateTokenOrDemote kv now c late w = Done (b, w') \<and>
    (b \<longrightarrow> isLeader (el w) \<and> token_current kv w \<and> same_but_metrics (el w) (el w')) \<and>
    (\<not> b \<longrightarrow> \<not> isLeader (el w') \<and>
       demoteCalls (el w') = demoteCalls (el w) @
         (case onDemote (el w) of Some cb \<Rightarrow> if isLeader (el w) then [cb] else [] | None \<Rightarrow> []))"
proof (cases "isLeader (el w)")
  case True
  obtain v err w1 where r: "validateToken kv c late w = Done ((v, err), w1)"
    using validateToken_returns [OF assms(3)] by metis
  note f = validateToken_frame [OF r]
  note s = same_but_metricsD [OF f [THEN conjunct2, THEN conjunct1]]
  show ?thesis
  proof (cases v)
    case True
    with r f \<open>isLeader (el w)\<close> show ?thesis
      by (auto simp: ValidateTokenOrDemote_def ValidateToken_def dest: validateToken_true [THEN iffD1])
  next
    case False
    then have "handleValidationFailure now (el w1) = Done (demoted_called now (el w1))"
      using s assms by (simp add: validation_failure.handler_returns)
    with False r f s \<open>isLeader (el w)\<close>
    have "ValidateTokenOrDemote kv now c late w = Done (False, w1\<lparr>el := demoted_called now (el w1)\<rparr>)"
      by (simp add: ValidateTokenOrDemote_def ValidateToken_def)
    then show ?thesis using s \<open>isLeader (el w)\<close> by (auto split: option.split)
  qed
next
  case False
  then show ?thesis by (auto simp: ValidateTokenOrDemote_def ValidateToken_def split: option.split)
qed

theorem ValidateTokenOrDemote_safe_witness:
  "\<exists>b w'. ValidateTokenOrDemote MockKeyValueAdapter 5 Background None (demo_world ''{}'') = Done (b, w') \<and>
    \<not> isLeader (el w') \<and> demoteCalls (el w') = [7]"
proof -
  have "\<not> token_current MockKeyValueAdapter (demo_world ''{}'')" by code_simp
  moreover have "\<not> mu (el (demo_world ''{}''))" "log_ok (el (demo_world ''{}''))"
    "isLeader (el (demo_world ''{}''))" "onDemote (el (demo_world ''{}'')) = Some 7"
    "demoteCalls (el (demo_world ''{}'')) = []" "ctx_corr Background \<noteq> Some CorrOther"
    by (simp_all add: demo_world_def demo_leader_def init_election_def log_ok_def can_log_def get_ctx_def Background_def)
  ultimately show ?thesis
    using ValidateTokenOrDemote_safe [of "demo_world ''{}''" Background MockKeyValueAdapter 5 None] by auto
qed

subsection \<open>The validation loop demotes\<close>

lemma count_validation_failure_same [simp]: "same_but_metrics e (count_validation_failure e)"
  by (simp add: count_validation_failure_def)

lemma same_but_metrics_trans: "same_but_metrics a b \<Longrightarrow> same_but_metrics b c \<Longrightarrow> same_but_metrics a c"
  by (simp add: same_but_metrics_def)

text \<open>The context of a running loop: the instance's own, which logs.\<close>

definition loop_ctx :: "ctx_id \<Rightarrow> kvElection \<Rightarrow> bool" where
  "loop_ctx i e \<longleftrightarrow> can_log (Some i) (contexts e) \<and> \<not> mu e \<and> log_ok e"

lemma log_then_loop_ctx: "loop_ctx i e \<Longrightarrow> log_then (Some i) e k = k"
  by (simp add: loop_ctx_def log_then_eq)

lemma loop_ctx_corr: "loop_ctx i e \<Longrightarrow> ctx_corr (get_ctx e i) \<noteq> Some CorrOther"
  by (auto simp: loop_ctx_def can_log_def get_ctx_def Background_def)

lemma loop_ctx_cong: "contexts e' = contexts e \<Longrightarrow> ctx e' = ctx e \<Longrightarrow> mu e' = mu e \<Longrightarrow> loop_ctx i e' = loop_ctx i e"
  by (simp add: loop_ctx_def log_ok_def)

lemma loop_ctx_same: "same_but_metrics e e' \<Longrightarrow> loop_ctx i e' = loop_ctx i e"
  by (simp add: loop_ctx_def same_but_metricsD)

text \<open>One pass over a leader: what it does by the outcome of the validation.\<close>

lemma validation_pass_leader:
  assumes "isLeader (el w)" "loop_ctx i (el w)"
  shows "\<exists>w'. uuids w' = uuids w \<and>
    (if token_current kv w \<and> ctx_Err (get_ctx (el w) i) = None \<and> vt_late t = None
     then validation_pass kv i t n w = Done (Continue (if n > 0 then 0 else n) w') \<and> same_but_metrics (el w) (el w')
     else if n + 1 < maxValidationFailures
     then validation_pass kv i t n w = Done (Continue (n + 1) w') \<and> same_but_metrics (el w) (el w')
     else validation_pass kv i t n w = Done (Return w') \<and>
       (\<exists>e. same_but_metrics (el w) e \<and> el w' = demoted_called (vt_now t) e))"
proof -
  have c: "ctx_corr (get_ctx (el w) i) \<noteq> Some CorrOther" using assms(2) by (rule loop_ctx_corr)
  obtain v err w1 where r: "validateToken kv (get_ctx (el w) i) (vt_late t) w = Done ((v, err), w1)"
    using validateToken_returns [OF c] by metis
  note f = validateToken_frame [OF r]
  let ?e2 = "count_validation_failure (el w1)"
  have s2: "same_but_metrics (el w) ?e2"
    using f same_but_metrics_trans [OF _ count_validation_failure_same] by blast
  have lc: "loop_ctx i (el w1)" "loop_ctx i ?e2" using f loop_ctx_same [of "el w"] s2 assms(2) by blast+
  have dem: "handleValidationFailure (vt_now t) ?e2 = Done (demoted_called (vt_now t) ?e2)"
    using lc(2) by (simp add: validation_failure.handler_returns loop_ctx_def)
  have v: "v \<longleftrightarrow> token_current kv w \<and> ctx_Err (get_ctx (el w) i) = None \<and> vt_late t = None"
    by (rule validateToken_value [OF r])
  show ?thesis
  proof (cases v)
    case True
    then have "validation_pass kv i t n w = Done (Continue (if n > 0 then 0 else n) w1)"
      using r f lc(1) assms(1) by (simp add: validation_pass_def log_then_loop_ctx)
    then show ?thesis using True v f by (intro exI [of _ w1]) simp
  next
    case False
    with f obtain er where er: "err = Some er" by auto
    have "uuids (w1\<lparr>el := ?e2\<rparr>) = uuids w" "uuids (w1\<lparr>el := demoted_called (vt_now t) ?e2\<rparr>) = uuids w"
      using f by simp_all
    moreover have "validation_pass kv i t n w =
        (if maxValidationFailures \<le> n + 1 then Done (Return (w1\<lparr>el := demoted_called (vt_now t) ?e2\<rparr>))
         else Done (Continue (n + 1) (w1\<lparr>el := ?e2\<rparr>)))"
      using r er assms(1) lc dem by (simp add: validation_pass_def log_then_loop_ctx demote_and_return_def Let_def)
    ultimately show ?thesis
      using False v s2
      by (cases "n + 1 < maxValidationFailures")
        (auto intro: exI [of _ "w1\<lparr>el := ?e2\<rparr>"] exI [of _ "w1\<lparr>el := demoted_called (vt_now t) ?e2\<rparr>"])
  qed
qed

text \<open>A running leader, a tick whose validation succeeds, and a leadership ended for cause.\<close>

definition leading :: "ctx_id \<Rightarrow> 's world \<Rightarrow> bool" where
  "leading i w \<longleftrightarrow> isLeader (el w) \<and> loop_ctx i (el w)"

definition validates :: "'s KeyValue \<Rightarrow> ctx_id \<Rightarrow> validation_tick \<Rightarrow> 's world \<Rightarrow> bool" where
  "validates kv i t w \<longleftrightarrow> token_current kv w \<and> ctx_Err (get_ctx (el w) i) = None \<and> vt_late t = None"

definition ended :: "'s world \<Rightarrow> bool" where
  "ended w \<longleftrightarrow> \<not> isLeader (el w) \<and> state (el w) = StateFollower \<and>
     (case onDemote (el w) of None \<Rightarrow> True | Some cb \<Rightarrow> demoteCalls (el w) \<noteq> [] \<and> last (demoteCalls (el w)) = cb)"

lemma ended_demoted_called: "el w = demoted_called now e \<Longrightarrow> ended w"
  by (auto simp: ended_def demoted_called_def split: option.split)

lemma leading_same: "leading i w \<Longrightarrow> same_but_metrics (el w) (el w') \<Longrightarrow> leading i w'"
  using loop_ctx_same same_but_metricsD(1) by (fastforce simp: leading_def)

interpretation validation_loop: counted_loop "validation_pass kv i" maxValidationFailures
  "\<lambda>t w. \<not> validates kv i t w" "leading i" ended for kv i
proof (unfold_locales, goal_cases)
  case (1 w t n)
  then have "isLeader (el w)" "loop_ctx i (el w)" by (simp_all add: leading_def)
  from validation_pass_leader [OF this, of kv t n] 1 show ?case
    using leading_same by (auto simp: validates_def)
next
  case (2 w t n)
  then have "isLeader (el w)" "loop_ctx i (el w)" by (simp_all add: leading_def)
  from validation_pass_leader [OF this, of kv t n] 2 show ?case
    using ended_demoted_called by (auto simp: validates_def)
qed

text \<open>
  C11: A leader whose token is found invalid, or cannot be checked, at two ticks in a row of its
  validation loop is demoted by the second one, whatever the rest of the program does in between
  (short of ending the leadership itself), and its callback is the last one called. One failed
  validation alone changes nothing but a counter: the loop goes on and the instance leads on, also
  when a token was read and is another's.
\<close>

theorem validationLoop_demotes:
  assumes w: "leading i w"
    and ev1: "\<forall>x. leading i x \<longrightarrow> leading i (env1 x) \<and> \<not> validates kv i t1 (env1 x)"
    and ev2: "\<forall>x. leading i x \<longrightarrow> leading i (env2 x) \<and> \<not> validates kv i t2 (env2 x)"
  shows "(\<exists>w1. validationLoop kv (Some i) [Tick env1 t1] w = Done (Continue 1 w1) \<and> leading i w1) \<and>
    (\<exists>w2. validationLoop kv (Some i) [Tick env1 t1, Tick env2 t2] w = Done (Return w2) \<and> ended w2)"
proof (rule conjI)
  show "\<exists>w1. validationLoop kv (Some i) [Tick env1 t1] w = Done (Continue 1 w1) \<and> leading i w1"
    using validation_loop.fail_goes_on [of i "env1 w" kv t1 0] w ev1
    by (auto simp: validationLoop_def maxValidationFailures_def)
  show "\<exists>w2. validationLoop kv (Some i) [Tick env1 t1, Tick env2 t2] w = Done (Return w2) \<and> ended w2"
    using validation_loop.fails_out [OF w, of "[Tick env1 t1, Tick env2 t2]" kv 0] ev1 ev2
    by (auto simp: validationLoop_def maxValidationFailures_def validation_loop.failing_def)
qed

definition broken_kv :: "MockKeyValue KeyValue" where
  "broken_kv = MockKeyValueAdapter\<lparr>Get := (\<lambda>k m. (Inl (ErrorString ''get failed''), m))\<rparr>"

lemma demo_world_running: "isLeader (el (demo_world v))" "loop_ctx 0 (el (demo_world v))"
  by (simp_all add: demo_world_def demo_leader_def init_election_def loop_ctx_def log_ok_def can_log_def get_ctx_def Background_def)

lemma broken_kv_invalid: "\<not> validates broken_kv i t w"
  by (simp add: validates_def token_current_def broken_kv_def)

theorem validationLoop_demotes_witness:
  "leading 0 (demo_world demo_value) \<and>
   (\<exists>w2. validationLoop broken_kv (Some 0)
      [Tick id \<lparr>vt_late = None, vt_now = 5\<rparr>, Tick id \<lparr>vt_late = None, vt_now = 10\<rparr>] (demo_world demo_value)
      = Done (Return w2) \<and> ended w2)"
proof (rule conjI)
  show *: "leading 0 (demo_world demo_value)" by (simp add: leading_def demo_world_running)
  show "\<exists>w2. validationLoop broken_kv (Some 0)
      [Tick id \<lparr>vt_late = None, vt_now = 5\<rparr>, Tick id \<lparr>vt_late = None, vt_now = 10\<rparr>] (demo_world demo_value)
      = Done (Return w2) \<and> ended w2"
    by (rule validationLoop_demotes [OF *, THEN conjunct2]) (simp_all add: broken_kv_invalid)
qed

end
