(* ===== verification/Heartbeat.thy ===== *)
theory Heartbeat
  imports Fencing Acquire
begin

text \<open>
  The heartbeat of a leader: \<open>heartbeatLoop\<close>, \<open>handleHeartbeatFailure\<close> and
  \<open>handleHealthCheckFailure\<close> of \<open>leader/heartbeat.go\<close>. One pass of the loop is split where the
  goroutine waits: between reading the revision and the update of the store, and between that
  update and the evaluation of its result, the rest of the program may change the instance and
  the store.
\<close>

subsection \<open>The handlers\<close>

definition handleHeartbeatFailure :: "int \<Rightarrow> kvElection \<Rightarrow> kvElection outcome" where
  "handleHeartbeatFailure now e =
     log_then (ctx e) e (and_then (becomeFollower now e) run_onDemote)"

definition handleHealthCheckFailure :: "int \<Rightarrow> kvElection \<Rightarrow> kvElection outcome" where
  "handleHealthCheckFailure now e =
     log_then (ctx e) e (and_then (becomeFollower now e) run_onDemote)"

interpretation heartbeat_failure: demotion handleHeartbeatFailure
  by unfold_locales (simp_all add: handleHeartbeatFailure_def demote_outcome)

interpretation health_failure: demotion handleHealthCheckFailure
  by unfold_locales (simp_all add: handleHealthCheckFailure_def demote_outcome)

subsection \<open>One pass\<close>

definition maxHeartbeatFailures :: int where "maxHeartbeatFailures = 3"

definition maxHealthFailures :: "ElectionConfig \<Rightarrow> int" where
  "maxHealthFailures c = (if MaxConsecutiveFailures c \<le> 0 then 3 else MaxConsecutiveFailures c)"

definition update_timeout :: "ElectionConfig \<Rightarrow> duration" where
  "update_timeout c =
     (let t = quot (HeartbeatInterval c) 2 in if t < Second then Second else t)"

text \<open>
  How the \<open>select\<close> after the update ends. When it is left by the timer or by the context, the update
  is still under way; if it reaches the store later, that is part of a later change \<open>ht_after\<close> or
  \<open>env\<close>.
\<close>

datatype update_wait = UpdateResult | UpdateTimeout | UpdateCtxDone

text \<open>
  \<open>ht_healthy\<close> is what the health checker returns, if there is one. \<open>ht_start\<close>, \<open>ht_end\<close> and
  \<open>ht_now\<close> are the clock readings of the pass, in order.
\<close>

record 's heartbeat_tick =
  ht_healthy :: bool
  ht_mid :: "'s world \<Rightarrow> 's world"
  ht_wait :: update_wait
  ht_after :: "'s world \<Rightarrow> 's world"
  ht_start :: int
  ht_end :: int
  ht_now :: int

definition observe_heartbeat :: "string \<Rightarrow> 's heartbeat_tick \<Rightarrow> kvElection \<Rightarrow> kvElection" where
  "observe_heartbeat status t e =
     observe (ObserveHeartbeatDuration (time_Sub (ht_end t) (ht_start t)) (getMetricsLabels e @ [(''status'', status)])) e"

definition with_el :: "'s world \<Rightarrow> kvElection outcome \<Rightarrow> 's world loop outcome" where
  "with_el w oc = and_then oc (\<lambda>e. Done (Return (w\<lparr>el := e\<rparr>)))"

text \<open>
  A revision mismatch makes the loop read the key once more, only to log who took over.
\<close>

definition log_takeover :: "'s KeyValue \<Rightarrow> ctx_id \<Rightarrow> error \<Rightarrow> 's world \<Rightarrow> 's world outcome" where
  "log_takeover kv c err w =
     (if strings_Contains (strings_ToLower (Error err)) ''revision mismatch'' then
        (let (r, st) = Get kv (key (el w)) (store w);
             w = w\<lparr>store := st\<rparr>
         in case r of
              Inr (Some entry) \<Rightarrow>
                (case Unmarshal_payload (Value entry) of
                   Inr current \<Rightarrow>
                     if pl_ID current \<noteq> InstanceID (cfg (el w)) then log_then (Some c) (el w) (Done w) else Done w
                 | Inl _ \<Rightarrow> Done w)
            | _ \<Rightarrow> Done w)
      else Done w)"

definition heartbeat_failed :: "'s KeyValue \<Rightarrow> ctx_id \<Rightarrow> 's heartbeat_tick \<Rightarrow> int \<Rightarrow> error \<Rightarrow> 's world
    \<Rightarrow> 's world loop outcome" where
  "heartbeat_failed kv c t n err w0 =
     (let errorType = classifyErrorType (Some err);
          w1 = w0\<lparr>el := observe_heartbeat ''failure'' t (el w0)\<rparr>
      in and_then (log_takeover kv c err w1) (\<lambda>w.
           if IsPermanentError (Some err) then
             log_then (Some c) (el w)
               (with_el w (handleHeartbeatFailure (ht_now t) (recordFailure errorType (el w))))
           else
             (let n = n + 1 in
              log_then (Some c) (el w)
                (let e = recordFailure errorType (el w) in
                 if maxHeartbeatFailures \<le> n then with_el w (handleHeartbeatFailure (ht_now t) e)
                 else Done (Continue n (w\<lparr>el := e\<rparr>))))))"

definition heartbeat_succeeded :: "ctx_id \<Rightarrow> 's heartbeat_tick \<Rightarrow> int \<Rightarrow> u64 \<Rightarrow> 's world \<Rightarrow> 's world loop outcome" where
  "heartbeat_succeeded c t n newRev w =
     (let e = (el w)\<lparr>revision := newRev\<rparr>;
          finish = (\<lambda>n. Done (Continue n
            (w\<lparr>el := (observe_heartbeat ''success'' t e)\<lparr>lastHeartbeat := Some (ht_now t)\<rparr>\<rparr>)))
      in if n > 0 then log_then (Some c) e (finish 0) else finish n)"

text \<open>Encoding the payload cannot fail, so the branch for a marshalling error has no counterpart.\<close>

definition heartbeat_update :: "'s KeyValue \<Rightarrow> ctx_id \<Rightarrow> 's heartbeat_tick \<Rightarrow> int \<Rightarrow> 's world \<Rightarrow> 's world loop outcome" where
  "heartbeat_update kv c t n w0 =
     (let currentRev = revision (el w0);
          payloadBytes = json_Marshal (own_payload (el w0) (token (el w0)));
          w1 = ht_mid t w0
      in case ht_wait t of
           UpdateCtxDone \<Rightarrow> Done (Return (ht_after t w1))
         | UpdateTimeout \<Rightarrow>
             heartbeat_failed kv c t n (NewTimeoutError ''heartbeat update'' (update_timeout (cfg (el w0))) None)
               (ht_after t w1)
         | UpdateResult \<Rightarrow>
             (let (r, st) = Update kv (key (el w0)) payloadBytes currentRev (ttl_opts (cfg (el w0))) (store w1);
                  w2 = ht_after t (w1\<lparr>store := st\<rparr>)
              in case r of
                   Inl err \<Rightarrow> heartbeat_failed kv c t n err w2
                 | Inr newRev \<Rightarrow> heartbeat_succeeded c t n newRev w2))"

definition heartbeat_pass :: "'s KeyValue \<Rightarrow> ctx_id \<Rightarrow> 's heartbeat_tick \<Rightarrow> int \<Rightarrow> 's world \<Rightarrow> 's world loop outcome" where
  "heartbeat_pass kv c t n w =
     (let e = el w in
      if \<not> isLeader e then Done (Return w)
      else if \<not> HealthChecker (cfg e) then heartbeat_update kv c t n w
      else if \<not> ht_healthy t then
        (let failureCount = i32 (healthFailureCount e + 1);
             e = e\<lparr>healthFailureCount := failureCount\<rparr>
         in log_then (Some c) e
           (if i32 (maxHealthFailures (cfg e)) \<le> failureCount
            then with_el w (handleHealthCheckFailure (ht_now t) e)
            else Done (Continue n (w\<lparr>el := e\<rparr>))))
      else if healthFailureCount e > 0 then
        (let e = e\<lparr>healthFailureCount := 0\<rparr>
         in log_then (Some c) e (heartbeat_update kv c t n (w\<lparr>el := e\<rparr>)))
      else heartbeat_update kv c t n w)"

definition heartbeatLoop :: "'s KeyValue \<Rightarrow> ctx_id option \<Rightarrow> ('s world, 's heartbeat_tick) loop_event list
    \<Rightarrow> 's world \<Rightarrow> 's world loop outcome" where
  "heartbeatLoop kv c evs w =
     (case c of None \<Rightarrow> Panicked | Some i \<Rightarrow> run_loop (heartbeat_pass kv i) evs 0 w)"

subsection \<open>What a pass does\<close>

lemma observe_heartbeat_same [simp]: "same_but_metrics e (observe_heartbeat status t e)"
  by (simp add: observe_heartbeat_def)

lemma recordFailure_same [simp]: "same_but_metrics e (recordFailure et e)"
  by (simp add: recordFailure_def)

lemma log_takeover_outcome:
  assumes "loop_ctx c (el w)"
  shows "\<exists>st. log_takeover kv c err w = Done (w\<lparr>store := st\<rparr>) \<and>
    (st = store w \<or> st = snd (Get kv (key (el w)) (store w)))"
proof -
  obtain r st where g: "Get kv (key (el w)) (store w) = (r, st)" by (cases "Get kv (key (el w)) (store w)")
  have "loop_ctx c (el (w\<lparr>store := st\<rparr>))" using assms by simp
  note lt = log_then_loop_ctx [OF this]
  show ?thesis
    using g lt
    by (cases "strings_Contains (strings_ToLower (Error err)) ''revision mismatch''")
      (auto simp: log_takeover_def Let_def split: sum.split option.split intro: exI [of _ "store w"])
qed

lemma heartbeat_failed_outcome:
  assumes "loop_ctx c (el w)"
  shows "\<exists>w'. (store w' = store w \<or> store w' = snd (Get kv (key (el w)) (store w))) \<and> uuids w' = uuids w \<and>
    (if IsPermanentError (Some err) \<or> maxHeartbeatFailures \<le> n + 1
     then heartbeat_failed kv c t n err w = Done (Return w') \<and>
       (\<exists>e. same_but_metrics (el w) e \<and> el w' = demoted_called (ht_now t) e)
     else heartbeat_failed kv c t n err w = Done (Continue (n + 1) w') \<and> same_but_metrics (el w) (el w'))"
proof -
  let ?e1 = "observe_heartbeat ''failure'' t (el w)"
  let ?e2 = "recordFailure (classifyErrorType (Some err)) ?e1"
  have s: "same_but_metrics (el w) ?e1" "same_but_metrics (el w) ?e2"
    using same_but_metrics_trans [OF _ recordFailure_same] by auto
  have lc: "loop_ctx c ?e1" "loop_ctx c ?e2" using assms loop_ctx_same s by blast+
  obtain st where st: "log_takeover kv c err (w\<lparr>el := ?e1\<rparr>) = Done (w\<lparr>el := ?e1, store := st\<rparr>)"
    "st = store w \<or> st = snd (Get kv (key (el w)) (store w))"
    using log_takeover_outcome [of c "w\<lparr>el := ?e1\<rparr>" kv err] lc(1) same_but_metricsD(10) [OF s(1)] by auto
  have "handleHeartbeatFailure (ht_now t) ?e2 = Done (demoted_called (ht_now t) ?e2)"
    using lc(2) by (simp add: heartbeat_failure.handler_returns loop_ctx_def)
  then have "heartbeat_failed kv c t n err w =
      (if IsPermanentError (Some err) \<or> maxHeartbeatFailures \<le> n + 1
       then Done (Return (w\<lparr>el := demoted_called (ht_now t) ?e2, store := st\<rparr>))
       else Done (Continue (n + 1) (w\<lparr>el := ?e2, store := st\<rparr>)))"
    using st(1) lc by (simp add: heartbeat_failed_def log_then_loop_ctx with_el_def Let_def)
  then show ?thesis
    using st(2) s(2)
    by (cases "IsPermanentError (Some err) \<or> maxHeartbeatFailures \<le> n + 1")
      (auto intro: exI [of _ "w\<lparr>el := demoted_called (ht_now t) ?e2, store := st\<rparr>"]
        exI [of _ "w\<lparr>el := ?e2, store := st\<rparr>"])
qed

lemma heartbeat_succeeded_outcome:
  assumes "loop_ctx c (el w)" "0 \<le> n"
  shows "\<exists>e. heartbeat_succeeded c t n newRev w = Done (Continue 0 (w\<lparr>el := e\<rparr>)) \<and>
    same_but_metrics ((el w)\<lparr>revision := newRev, lastHeartbeat := Some (ht_now t)\<rparr>) e"
proof -
  let ?e = "(el w)\<lparr>revision := newRev\<rparr>"
  let ?f = "(observe_heartbeat ''success'' t ?e)\<lparr>lastHeartbeat := Some (ht_now t)\<rparr>"
  have "loop_ctx c ?e" using assms(1) by (simp add: loop_ctx_def log_ok_def)
  then have "heartbeat_succeeded c t n newRev w = Done (Continue 0 (w\<lparr>el := ?f\<rparr>))"
    using assms(2) by (simp add: heartbeat_succeeded_def Let_def log_then_loop_ctx)
  moreover have "same_but_metrics ((el w)\<lparr>revision := newRev, lastHeartbeat := Some (ht_now t)\<rparr>) ?f"
    by (cases "el w") (simp add: same_but_metrics_def observe_heartbeat_def observe_eq)
  ultimately show ?thesis by blast
qed

text \<open>Past the health check the pass is the update, with the failure counter reset.\<close>

lemma heartbeat_pass_healthy:
  assumes "leading c w" "HealthChecker (cfg (el w)) \<longrightarrow> ht_healthy t"
  shows "\<exists>h. heartbeat_pass kv c t n w = heartbeat_update kv c t n (w\<lparr>el := (el w)\<lparr>healthFailureCount := h\<rparr>\<rparr>)"
proof -
  let ?h = "if HealthChecker (cfg (el w)) \<and> healthFailureCount (el w) > 0 then 0 else healthFailureCount (el w)"
  have "loop_ctx c ((el w)\<lparr>healthFailureCount := 0\<rparr>)" "isLeader (el w)"
    using assms(1) by (simp_all add: leading_def loop_ctx_def log_ok_def)
  then have "heartbeat_pass kv c t n w = heartbeat_update kv c t n (w\<lparr>el := (el w)\<lparr>healthFailureCount := ?h\<rparr>\<rparr>)"
    using assms(2) by (simp add: heartbeat_pass_def Let_def log_then_loop_ctx)
  then show ?thesis by blast
qed

text \<open>A tick at which nothing interferes and the update comes back in time.\<close>

definition quiet_tick :: "'s world \<Rightarrow> 's heartbeat_tick \<Rightarrow> bool" where
  "quiet_tick w t \<longleftrightarrow> ht_mid t = id \<and> ht_after t = id \<and> ht_wait t = UpdateResult \<and>
     (HealthChecker (cfg (el w)) \<longrightarrow> ht_healthy t)"

context fencing_store
begin

lemma heartbeat_renews:
  assumes w: "leading c w" "ok (store w)" "up (store w)" "last_rev (store w) < max_rev" "quiet_tick w t" "0 \<le> n"
    and cur: "contents (store w) (key (el w)) = Some (v, revision (el w))"
  shows "\<exists>w'. heartbeat_pass kv c t n w = Done (Continue 0 w') \<and> leading c w' \<and>
    contents (store w') (key (el w)) = Some (json_Marshal (own_payload (el w) (token (el w))), revision (el w')) \<and>
    revision (el w) < revision (el w')"
proof -
  obtain h where h: "heartbeat_pass kv c t n w = heartbeat_update kv c t n (w\<lparr>el := (el w)\<lparr>healthFailureCount := h\<rparr>\<rparr>)"
    using heartbeat_pass_healthy w(1,5) by (metis quiet_tick_def)
  let ?v = "json_Marshal (own_payload (el w) (token (el w)))"
  let ?e = "(el w)\<lparr>healthFailureCount := h\<rparr>"
  obtain m s' where u: "Update kv (key (el w)) ?v (revision (el w)) (ttl_opts (cfg (el w))) (store w) = (Inr m, s')"
    using update_accepts [OF w(2,3) cur] by blast
  have lc: "loop_ctx c ?e" "isLeader ?e" using w(1) by (simp_all add: leading_def loop_ctx_def log_ok_def)
  obtain e where e: "heartbeat_succeeded c t n m (w\<lparr>el := ?e, store := s'\<rparr>) = Done (Continue 0 (w\<lparr>store := s', el := e\<rparr>))"
    "same_but_metrics (?e\<lparr>revision := m, lastHeartbeat := Some (ht_now t)\<rparr>) e"
    using heartbeat_succeeded_outcome [of c "w\<lparr>el := ?e, store := s'\<rparr>" n t m] lc(1) w(6) by auto
  have "own_payload ?e (token ?e) = own_payload (el w) (token (el w))" by (simp add: own_payload_def)
  then have "heartbeat_pass kv c t n w = Done (Continue 0 (w\<lparr>store := s', el := e\<rparr>))"
    using h u e(1) w(5) by (simp add: heartbeat_update_def quiet_tick_def Let_def)
  moreover have "leading c (w\<lparr>store := s', el := e\<rparr>)"
    using same_but_metricsD [OF e(2)] lc by (simp add: leading_def loop_ctx_def log_ok_def)
  moreover have "contents s' (key (el w)) = Some (?v, m)" "revision (el w) < m"
    using update_ok [OF w(2,4) u] revs_bounded [OF w(2) cur] by auto
  moreover have "revision e = m" using same_but_metricsD(7) [OF e(2)] by simp
  ultimately show ?thesis by (intro exI [of _ "w\<lparr>store := s', el := e\<rparr>"]) simp
qed

lemma heartbeat_yields:
  assumes w: "leading c w" "ok (store w)" "up (store w)" "quiet_tick w t"
    and stale: "\<nexists>v. contents (store w) (key (el w)) = Some (v, revision (el w))"
  shows "\<exists>w'. heartbeat_pass kv c t n w = Done (Return w') \<and> ended w' \<and> contents (store w') = contents (store w)"
proof -
  obtain h where h: "heartbeat_pass kv c t n w = heartbeat_update kv c t n (w\<lparr>el := (el w)\<lparr>healthFailureCount := h\<rparr>\<rparr>)"
    using heartbeat_pass_healthy w(1,4) by (metis quiet_tick_def)
  let ?v = "json_Marshal (own_payload (el w) (token (el w)))"
  let ?e = "(el w)\<lparr>healthFailureCount := h\<rparr>"
  obtain err s' where u: "Update kv (key (el w)) ?v (revision (el w)) (ttl_opts (cfg (el w))) (store w) = (Inl err, s')"
    "IsPermanentError (Some err)"
    using update_refuses [OF w(2,3) stale] by blast
  have lc: "loop_ctx c ?e" using w(1) by (simp add: leading_def loop_ctx_def log_ok_def)
  have "own_payload ?e (token ?e) = own_payload (el w) (token (el w))" by (simp add: own_payload_def)
  then have p: "heartbeat_pass kv c t n w = heartbeat_failed kv c t n err (w\<lparr>el := ?e, store := s'\<rparr>)"
    using h u(1) w(4) by (simp add: heartbeat_update_def quiet_tick_def Let_def)
  obtain w' e where w': "heartbeat_failed kv c t n err (w\<lparr>el := ?e, store := s'\<rparr>) = Done (Return w')"
    "el w' = demoted_called (ht_now t) e" "store w' = s' \<or> store w' = snd (Get kv (key (el w)) s')"
    using heartbeat_failed_outcome [of c "w\<lparr>el := ?e, store := s'\<rparr>" kv err n t] lc u(2) by auto
  have s': "contents s' = contents (store w)" "ok s'" using update_err [OF w(2) u(1)] by simp_all
  have "contents (store w') = contents (store w)"
    using w'(3) s' get_frame [OF s'(2), of "key (el w)"] by (metis prod.collapse)
  with p w'(1) ended_demoted_called [OF w'(2)] show ?thesis by auto
qed

end

subsection \<open>Leading exactly as long as the entry is one's own\<close>

definition demo_tick :: "MockKeyValue heartbeat_tick" where
  "demo_tick = \<lparr>ht_healthy = True, ht_mid = id, ht_wait = UpdateResult, ht_after = id, ht_start = 0, ht_end = 0, ht_now = 3\<rparr>"

text \<open>
  C4: On the in-memory store a heartbeat that comes back undisturbed decides leadership. If the
  stored entry still has the leader's revision, the leader writes its own payload, goes on leading
  and remembers the new, larger revision, which is the one of the stored entry; if the entry is gone
  or has any other revision, the leader is demoted at once, its callback runs and the store is left
  as it was.
\<close>

theorem heartbeat_decides:
  assumes "leading c w" "mock_ok (store w)" "mock_up (store w)" "rev_counter (store w) < max_rev"
    and "quiet_tick w t" "0 \<le> n"
  shows "if \<exists>v. mock_contents (store w) (key (el w)) = Some (v, revision (el w))
    then \<exists>w'. heartbeat_pass MockKeyValueAdapter c t n w = Done (Continue 0 w') \<and> leading c w' \<and>
      mock_contents (store w') (key (el w)) =
        Some (json_Marshal (own_payload (el w) (token (el w))), revision (el w')) \<and>
      revision (el w) < revision (el w')
    else \<exists>w'. heartbeat_pass MockKeyValueAdapter c t n w = Done (Return w') \<and> ended w' \<and>
      mock_contents (store w') = mock_contents (store w)"
  using mock.heartbeat_renews [OF assms] mock.heartbeat_yields [OF assms(1-3,5)] by auto

lemma demo_world_mock: "mock_ok (store (demo_world v))" "mock_up (store (demo_world v))"
    "rev_counter (store (demo_world v)) < max_rev"
  by (simp_all add: demo_world_def demo_store_def mock_Create_def NewMockKeyValue_def mock_ok_def mock_up_def Let_def)

lemma demo_world_entry: "mock_contents (store (demo_world v)) (key (el (demo_world v))) = Some (v, 1)"
  "revision (el (demo_world v)) = 1"
  by (simp_all add: demo_world_def demo_store_def mock_Create_def NewMockKeyValue_def mock_contents_def demo_leader_def
      init_election_def Let_def)

theorem heartbeat_decides_witness:
  "\<exists>w'. heartbeat_pass MockKeyValueAdapter 0 demo_tick 0 (demo_world demo_value) = Done (Continue 0 w') \<and> leading 0 w' \<and>
      mock_contents (store w') (key (el (demo_world demo_value))) =
        Some (json_Marshal (own_payload (el (demo_world demo_value)) (token (el (demo_world demo_value)))), revision (el w')) \<and>
      1 < revision (el w')"
  using heartbeat_decides [of 0 "demo_world demo_value" demo_tick 0] demo_world_mock [of demo_value]
    demo_world_running [of demo_value] demo_world_entry [of demo_value]
  by (simp add: leading_def quiet_tick_def demo_tick_def)

subsection \<open>Transient failures\<close>

definition keeps_leading :: "ctx_id \<Rightarrow> ('s world \<Rightarrow> 's world) \<Rightarrow> bool" where
  "keeps_leading c f \<longleftrightarrow> (\<forall>w. leading c w \<longrightarrow> leading c (f w))"

text \<open>A tick whose update times out or is refused with a transient error, whatever the store holds.\<close>

definition transient_tick :: "'s KeyValue \<Rightarrow> ctx_id \<Rightarrow> 's heartbeat_tick \<Rightarrow> 's world \<Rightarrow> bool" where
  "transient_tick kv c t w \<longleftrightarrow>
     (HealthChecker (cfg (el w)) \<longrightarrow> ht_healthy t) \<and> keeps_leading c (ht_mid t) \<and> keeps_leading c (ht_after t) \<and>
     (ht_wait t = UpdateTimeout \<or>
      ht_wait t = UpdateResult \<and>
      (\<forall>k v r opts s. \<exists>err. fst (Update kv k v r opts s) = Inl err \<and> \<not> IsPermanentError (Some err)))"

lemma transient_pass:
  assumes "leading c w" "transient_tick kv c t w"
  shows "\<exists>w2 err. leading c w2 \<and> \<not> IsPermanentError (Some err) \<and>
    heartbeat_pass kv c t n w = heartbeat_failed kv c t n err w2"
proof -
  obtain h where h: "heartbeat_pass kv c t n w = heartbeat_update kv c t n (w\<lparr>el := (el w)\<lparr>healthFailureCount := h\<rparr>\<rparr>)"
    using heartbeat_pass_healthy assms by (metis transient_tick_def)
  let ?w = "w\<lparr>el := (el w)\<lparr>healthFailureCount := h\<rparr>\<rparr>"
  have "leading c ?w" using assms(1) by (simp add: leading_def loop_ctx_def log_ok_def)
  then have mid: "leading c (ht_mid t ?w)" using assms(2) by (simp add: transient_tick_def keeps_leading_def)
  have aft: "leading c (ht_after t x)" if "leading c x" for x
    using that assms(2) by (simp add: transient_tick_def keeps_leading_def)
  show ?thesis
  proof (cases "ht_wait t = UpdateTimeout")
    case True
    then show ?thesis
      using h aft [OF mid] TimeoutError_not_permanent
      by (intro exI [of _ "ht_after t (ht_mid t ?w)"] exI) (auto simp: heartbeat_update_def Let_def)
  next
    case False
    then have r: "ht_wait t = UpdateResult"
      "\<forall>k v r opts s. \<exists>err. fst (Update kv k v r opts s) = Inl err \<and> \<not> IsPermanentError (Some err)"
      using assms(2) by (auto simp: transient_tick_def)
    let ?u = "Update kv (key (el w)) (json_Marshal (own_payload (el ?w) (token (el ?w)))) (revision (el w))
      (ttl_opts (cfg (el w))) (store (ht_mid t ?w))"
    obtain err where err: "fst ?u = Inl err" "\<not> IsPermanentError (Some err)" using r(2) by blast
    have "leading c ((ht_mid t ?w)\<lparr>store := snd ?u\<rparr>)" using mid by (simp add: leading_def)
    from aft [OF this] err h r(1) show ?thesis
      by (cases ?u) (auto simp: heartbeat_update_def Let_def)
  qed
qed

interpretation heartbeat_loop: counted_loop "heartbeat_pass kv c" maxHeartbeatFailures
  "transient_tick kv c" "leading c" ended for kv c
proof (unfold_locales, goal_cases)
  case (1 w t n)
  obtain w2 err where "leading c w2" "\<not> IsPermanentError (Some err)"
    "heartbeat_pass kv c t n w = heartbeat_failed kv c t n err w2"
    using transient_pass [OF 1(1,2)] by blast
  then show ?case
    using heartbeat_failed_outcome [of c w2 kv err n t] leading_same [of c w2] 1(3) by (auto simp: leading_def [of c w2])
next
  case (2 w t n)
  obtain w2 err where "leading c w2" "\<not> IsPermanentError (Some err)"
    "heartbeat_pass kv c t n w = heartbeat_failed kv c t n err w2"
    using transient_pass [OF 2(1,2)] by blast
  then show ?case
    using heartbeat_failed_outcome [of c w2 kv err n t] ended_demoted_called 2(3) by (auto simp: leading_def [of c w2])
qed

text \<open>
  C10: A leader that cannot complete its heartbeats (they time out or fail with transient errors)
  is demoted by the third one in a row, and not before, whatever happens to the instance and the
  store in the meantime short of ending the leadership. A timeout counts as one failure like the
  others: it does not demote at once.
\<close>

theorem heartbeatLoop_demotes:
  assumes "leading c w" "length evs \<le> 3"
    and "\<forall>ev \<in> set evs. \<exists>env t. ev = Tick env t \<and> (\<forall>x. leading c x \<longrightarrow> leading c (env x) \<and> transient_tick kv c t (env x))"
  shows "if length evs = 3
    then \<exists>w'. heartbeatLoop kv (Some c) evs w = Done (Return w') \<and> ended w'
    else \<exists>w'. heartbeatLoop kv (Some c) evs w = Done (Continue (int (length evs)) w') \<and> leading c w'"
proof -
  have f: "\<forall>ev \<in> set evs. heartbeat_loop.failing kv c ev" using assms(3) by (simp add: heartbeat_loop.failing_def)
  show ?thesis
    using heartbeat_loop.fails_out [OF assms(1) f, of 0] heartbeat_loop.goes_on [OF assms(1) f, of 0] assms(2)
    by (auto simp: heartbeatLoop_def maxHeartbeatFailures_def)
qed

theorem heartbeatLoop_demotes_witness:
  "\<exists>w'. heartbeatLoop MockKeyValueAdapter (Some 0)
      (replicate 3 (Tick id (demo_tick\<lparr>ht_wait := UpdateTimeout\<rparr>))) (demo_world demo_value) = Done (Return w') \<and> ended w'"
proof -
  have t: "transient_tick MockKeyValueAdapter 0 (demo_tick\<lparr>ht_wait := UpdateTimeout\<rparr>) x" for x
    by (simp add: transient_tick_def demo_tick_def keeps_leading_def)
  have "leading 0 (demo_world demo_value)" by (simp add: leading_def demo_world_running)
  from heartbeatLoop_demotes [OF this, of "replicate 3 (Tick id (demo_tick\<lparr>ht_wait := UpdateTimeout\<rparr>))" MockKeyValueAdapter] t
  show ?thesis by simp
qed

subsection \<open>Health checks\<close>

lemma maxHealthFailures_pos: "0 < maxHealthFailures c"
  by (simp add: maxHealthFailures_def)

lemma demoted_called_keeps_count [simp]: "healthFailureCount (demoted_called now e) = healthFailureCount e"
  by (simp add: demoted_called_def demoted_def Let_def split: option.split)

lemma unhealthy_pass:
  assumes "leading c w" "HealthChecker (cfg (el w))" "\<not> ht_healthy t"
  shows "\<exists>w'. healthFailureCount (el w') = i32 (healthFailureCount (el w) + 1) \<and>
    (if i32 (maxHealthFailures (cfg (el w))) \<le> i32 (healthFailureCount (el w) + 1)
     then heartbeat_pass kv c t n w = Done (Return w') \<and> ended w'
     else heartbeat_pass kv c t n w = Done (Continue n w') \<and> leading c w' \<and> cfg (el w') = cfg (el w))"
proof -
  let ?e = "(el w)\<lparr>healthFailureCount := i32 (healthFailureCount (el w) + 1)\<rparr>"
  have lc: "loop_ctx c ?e" "isLeader ?e" "isLeader (el w)"
    using assms(1) by (simp_all add: leading_def loop_ctx_def log_ok_def)
  then have "handleHealthCheckFailure (ht_now t) ?e = Done (demoted_called (ht_now t) ?e)"
    by (simp add: health_failure.handler_returns loop_ctx_def)
  then have "heartbeat_pass kv c t n w =
      (if i32 (maxHealthFailures (cfg (el w))) \<le> i32 (healthFailureCount (el w) + 1)
       then Done (Return (w\<lparr>el := demoted_called (ht_now t) ?e\<rparr>)) else Done (Continue n (w\<lparr>el := ?e\<rparr>)))"
    using lc assms(2,3) by (simp add: heartbeat_pass_def Let_def log_then_loop_ctx with_el_def)
  moreover have "leading c (w\<lparr>el := ?e\<rparr>)" using lc by (simp add: leading_def)
  moreover have "ended (w\<lparr>el := demoted_called (ht_now t) ?e\<rparr>)"
    by (rule ended_demoted_called [of _ "ht_now t" ?e]) simp
  ultimately show ?thesis
    by (cases "i32 (maxHealthFailures (cfg (el w))) \<le> i32 (healthFailureCount (el w) + 1)")
      (auto intro: exI [of _ "w\<lparr>el := demoted_called (ht_now t) ?e\<rparr>"] exI [of _ "w\<lparr>el := ?e\<rparr>"])
qed

lemma unhealthy_run:
  assumes "leading c w" "HealthChecker (cfg (el w))" "\<forall>t \<in> set ts. \<not> ht_healthy t"
    and "maxHealthFailures (cfg (el w)) = m" "m < 2 ^ 31" "0 \<le> healthFailureCount (el w)" "healthFailureCount (el w) < 2 ^ 31 - 1"
  shows "if ts = [] \<or> healthFailureCount (el w) + int (length ts) < m
    then \<exists>w'. run_loop (heartbeat_pass kv c) (map (Tick id) ts) n w = Done (Continue n w') \<and> leading c w' \<and>
      healthFailureCount (el w') = healthFailureCount (el w) + int (length ts)
    else \<exists>w'. run_loop (heartbeat_pass kv c) (map (Tick id) ts) n w = Done (Return w') \<and> ended w' \<and>
      healthFailureCount (el w') = max m (healthFailureCount (el w) + 1)"
  using assms
proof (induction ts arbitrary: w)
  case (Cons t ts)
  have i: "i32 m = m" "i32 (healthFailureCount (el w) + 1) = healthFailureCount (el w) + 1"
    using Cons.prems(5-7) maxHealthFailures_pos [of "cfg (el w)"] Cons.prems(4) by (auto intro!: i32_id)
  obtain w' where w': "healthFailureCount (el w') = healthFailureCount (el w) + 1"
    "if m \<le> healthFailureCount (el w) + 1
     then heartbeat_pass kv c t n w = Done (Return w') \<and> ended w'
     else heartbeat_pass kv c t n w = Done (Continue n w') \<and> leading c w' \<and> cfg (el w') = cfg (el w)"
    using unhealthy_pass [OF Cons.prems(1,2), of t kv n, unfolded Cons.prems(4) i] Cons.prems(3) by auto
  show ?case
  proof (cases "m \<le> healthFailureCount (el w) + 1")
    case True
    then show ?thesis using w' by (auto simp: max_def)
  next
    case False
    then have p: "heartbeat_pass kv c t n w = Done (Continue n w')" "leading c w'" "cfg (el w') = cfg (el w)" using w'(2) by simp_all
    have ih: "if ts = [] \<or> healthFailureCount (el w') + int (length ts) < m
      then \<exists>w2. run_loop (heartbeat_pass kv c) (map (Tick id) ts) n w' = Done (Continue n w2) \<and> leading c w2 \<and>
        healthFailureCount (el w2) = healthFailureCount (el w') + int (length ts)
      else \<exists>w2. run_loop (heartbeat_pass kv c) (map (Tick id) ts) n w' = Done (Return w2) \<and> ended w2 \<and>
        healthFailureCount (el w2) = max m (healthFailureCount (el w') + 1)"
      using Cons.prems False p w'(1) by (intro Cons.IH) auto
    have step: "run_loop (heartbeat_pass kv c) (map (Tick id) (t # ts)) n w = run_loop (heartbeat_pass kv c) (map (Tick id) ts) n w'"
      using p(1) by simp
    have eq: "max m (healthFailureCount (el w') + 1) = max m (healthFailureCount (el w) + 1)"
      "healthFailureCount (el w') + int (length ts) = healthFailureCount (el w) + int (length (t # ts))"
      "t # ts = [] \<or> healthFailureCount (el w) + int (length (t # ts)) < m \<longleftrightarrow>
         ts = [] \<or> healthFailureCount (el w) + int (length (t # ts)) < m"
      using False w'(1) by auto
    show ?thesis using ih unfolding step eq .
  qed
qed simp

text \<open>
  C18: With a health checker and a threshold below 2 to the 31, a leader with \<open>h\<close> failed checks on record is
  demoted by unhealthy ticks in a row as soon as the record reaches the threshold (the configured number,
  three when none is configured), at the first one if \<open>h\<close> is that large already, and leads on through fewer.
  The demotion keeps the record: an instance that is elected again before a healthy tick starts with it, and
  its first unhealthy tick demotes it.
\<close>

theorem health_check_demotes:
  assumes "leading c w" "HealthChecker (cfg (el w))" "maxHealthFailures (cfg (el w)) < 2 ^ 31" "\<forall>t \<in> set ts. \<not> ht_healthy t"
    and "healthFailureCount (el w) = h" "0 \<le> h" "h < 2 ^ 31 - 1"
  shows "if ts = [] \<or> h + int (length ts) < maxHealthFailures (cfg (el w))
    then \<exists>w'. heartbeatLoop kv (Some c) (map (Tick id) ts) w = Done (Continue 0 w') \<and> leading c w'
    else \<exists>w'. heartbeatLoop kv (Some c) (map (Tick id) ts) w = Done (Return w') \<and> ended w' \<and>
      healthFailureCount (el w') = max (maxHealthFailures (cfg (el w))) (h + 1)"
  using unhealthy_run [OF assms(1,2,4) refl assms(3), of kv 0] assms(5-7) by (auto simp: heartbeatLoop_def split: if_splits)

definition checked_world :: "int \<Rightarrow> MockKeyValue world" where
  "checked_world m =
     (demo_world demo_value)\<lparr>el := demo_leader\<lparr>cfg := (cfg demo_leader)\<lparr>HealthChecker := True, MaxConsecutiveFailures := m\<rparr>\<rparr>\<rparr>"

lemma checked_world_simps:
  "leading 0 (checked_world m)" "HealthChecker (cfg (el (checked_world m)))" "healthFailureCount (el (checked_world m)) = 0"
  "MaxConsecutiveFailures (cfg (el (checked_world m))) = m"
  by (simp_all add: checked_world_def demo_leader_def init_election_def leading_def loop_ctx_def log_ok_def can_log_def Background_def)

theorem health_check_demotes_witness:
  "\<exists>w'. heartbeatLoop MockKeyValueAdapter (Some 0) (map (Tick id) (replicate 2 (demo_tick\<lparr>ht_healthy := False\<rparr>)))
    (checked_world 2) = Done (Return w') \<and> ended w'"
  using health_check_demotes [OF checked_world_simps(1,2) [of 2] _ _ checked_world_simps(3),
      of "replicate 2 (demo_tick\<lparr>ht_healthy := False\<rparr>)" MockKeyValueAdapter]
  by (auto simp: maxHealthFailures_def checked_world_simps)

text \<open>
  The threshold is compared after truncation to 32 bits. An accepted configuration with a
  threshold of 2 to the 31 demotes at the first unhealthy tick instead of tolerating billions.
\<close>

theorem health_threshold_wraps:
  "\<exists>w. validateConfig (cfg (el w)) = None \<and> MaxConsecutiveFailures (cfg (el w)) = 2 ^ 31 \<and>
    healthFailureCount (el w) = 0 \<and> leading 0 w \<and>
    (\<exists>w'. heartbeat_pass MockKeyValueAdapter 0 (demo_tick\<lparr>ht_healthy := False\<rparr>) 0 w = Done (Return w') \<and> ended w')"
proof (rule exI [of _ "checked_world (2 ^ 31)"], intro conjI)
  show "validateConfig (cfg (el (checked_world (2 ^ 31)))) = None"
    by (simp add: validateConfig_None_iff checked_world_def demo_leader_def init_election_def i64_id in_i64_def)
  have "i32 (maxHealthFailures (cfg (el (checked_world (2 ^ 31))))) \<le> i32 1"
    by (simp add: maxHealthFailures_def checked_world_simps i32_def)
  then show "\<exists>w'. heartbeat_pass MockKeyValueAdapter 0 (demo_tick\<lparr>ht_healthy := False\<rparr>) 0 (checked_world (2 ^ 31)) =
      Done (Return w') \<and> ended w'"
    using unhealthy_pass [OF checked_world_simps(1,2) [of "2 ^ 31"], of "demo_tick\<lparr>ht_healthy := False\<rparr>" MockKeyValueAdapter 0]
    by (auto simp: checked_world_simps)
qed (simp_all add: checked_world_simps)

end
