(* ===== verification/Watcher_Loop.thy ===== *)
theory Watcher_Loop
  imports Fencing Acquire
begin

text \<open>
  How an instance learns about the leader: \<open>handleWatchEvent\<close>, \<open>checkKeyAndReelect\<close> and \<open>watchLoop\<close>
  of \<open>leader/watcher.go\<close>, with the deferred bookkeeping of the goroutine that \<open>becomeFollower\<close>
  starts.
\<close>

subsection \<open>Events\<close>

definition handleWatchEvent :: "int \<Rightarrow> Entry option \<Rightarrow> kvElection \<Rightarrow> kvElection outcome" where
  "handleWatchEvent now entry e =
     (case entry of
        None \<Rightarrow> log_then (ctx e) e (Done (go (Go_acquireWithRetry (ctx e)) e))
      | Some entry \<Rightarrow>
          if Value entry = [] then log_then (ctx e) e (Done (go (Go_acquireWithRetry (ctx e)) e))
          else
            (case Unmarshal_payload (Value entry) of
               Inl _ \<Rightarrow> Done e
             | Inr payload \<Rightarrow>
                 if isLeader e then
                   (if pl_ID payload \<noteq> InstanceID (cfg e)
                    then log_then (ctx e) e (becomeFollower now e) else Done e)
                 else if leaderID e \<noteq> pl_ID payload then
                   log_then (ctx e) e (Done (e\<lparr>leaderID := pl_ID payload, revision := Revision entry\<rparr>))
                 else
                   (let e = e\<lparr>leaderID := pl_ID payload, revision := Revision entry\<rparr> in
                    if AllowPriorityTakeover (cfg e) \<and> Priority (cfg e) > pl_Priority payload
                    then log_then (ctx e) e (Done (go Go_takeover e))
                    else Done e)))"

text \<open>The goroutine of a takeover attempt: a failed one is only logged.\<close>

definition takeover_goroutine :: "(nat \<Rightarrow> string) \<Rightarrow> 's KeyValue \<Rightarrow> int \<Rightarrow> 's world \<Rightarrow> 's world outcome option" where
  "takeover_goroutine uuid kv now w =
     Option.bind (attemptAcquire uuid kv now w) (\<lambda>oc. Some
       (and_then oc (\<lambda>(err, w').
          case err of None \<Rightarrow> Done w' | Some _ \<Rightarrow> log_then (ctx (el w')) (el w') (Done w'))))"

subsection \<open>The periodic check\<close>

definition checkKeyAndReelect :: "'s KeyValue \<Rightarrow> ctx_id option \<Rightarrow> 's world \<Rightarrow> 's world outcome" where
  "checkKeyAndReelect kv c w0 =
     (if isLeader (el w0) then Done w0
      else
        (let (r, st) = Get kv (key (el w0)) (store w0);
             w = w0\<lparr>store := st\<rparr>;
             e = el w;
             reelect = log_then c e (Done (w\<lparr>el := go (Go_acquireWithRetry c) e\<rparr>))
         in case r of
              Inl _ \<Rightarrow> reelect
            | Inr None \<Rightarrow> reelect
            | Inr (Some entry) \<Rightarrow>
                if Value entry = [] then reelect
                else
                  (case Unmarshal_map (Value entry) of
                     Inl _ \<Rightarrow> Done w
                   | Inr payload \<Rightarrow>
                       (case payload ''id'' of
                          Some (JStr newLeaderID) \<Rightarrow>
                            if leaderID e \<noteq> [] \<and> leaderID e \<noteq> newLeaderID
                            then log_then c e
                              (Done (w\<lparr>el := e\<lparr>leaderID := newLeaderID, revision := Revision entry\<rparr>\<rparr>))
                            else Done w
                        | _ \<Rightarrow> Done w))))"

subsection \<open>The loop\<close>

datatype watch_event = WatchEntry int "Entry option" | WatchClosed | CheckTick

fun watch_pass :: "'s KeyValue \<Rightarrow> ctx_id \<Rightarrow> watch_event \<Rightarrow> int \<Rightarrow> 's world \<Rightarrow> 's world loop outcome" where
  "watch_pass kv c (WatchEntry now entry) n w =
     and_then (handleWatchEvent now entry (el w)) (\<lambda>e. Done (Continue n (w\<lparr>el := e\<rparr>)))"
| "watch_pass kv c WatchClosed n w =
     log_then (Some c) (el w)
       (if \<not> isLeader (el w) then Done (Return (w\<lparr>el := go (Go_checkKey (Some c)) (el w)\<rparr>)) else Done (Return w))"
| "watch_pass kv c CheckTick n w =
     (if \<not> isLeader (el w) then and_then (checkKeyAndReelect kv (Some c) w) (\<lambda>w'. Done (Continue n w'))
      else Done (Continue n w))"

definition watchLoop :: "'s KeyValue \<Rightarrow> ctx_id option \<Rightarrow> ('s world, watch_event) loop_event list \<Rightarrow> 's world
    \<Rightarrow> 's world loop outcome" where
  "watchLoop kv c evs w0 =
     (let (r, st) = Watch kv (key (el w0)) (store w0);
          w = w0\<lparr>store := st\<rparr>
      in log_then c (el w)
        (case r of
           Inl _ \<Rightarrow> Done (Return w)
         | Inr _ \<Rightarrow> (case c of None \<Rightarrow> Panicked | Some i \<Rightarrow> run_loop (watch_pass kv i) evs 0 w)))"

text \<open>The goroutine: when the loop returns, the wait group and the running flag are released.\<close>

definition watch_goroutine :: "'s KeyValue \<Rightarrow> ('s world, watch_event) loop_event list \<Rightarrow> 's world
    \<Rightarrow> 's world loop outcome" where
  "watch_goroutine kv evs w =
     and_then (watchLoop kv (ctx (el w)) evs w) (\<lambda>r.
       case r of
         Continue n w' \<Rightarrow> Done (Continue n w')
       | Return w' \<Rightarrow> Done (Return (w'\<lparr>el := (el w')\<lparr>wg := wg (el w') - 1, watcherRunning := False\<rparr>\<rparr>)))"

subsection \<open>What an event does\<close>

lemma go_simps [simp]:
  "isLeader (go g e) = isLeader e" "gos (go g e) = gos e @ [g]" "leaderID (go g e) = leaderID e"
  "revision (go g e) = revision e" "cfg (go g e) = cfg e" "state (go g e) = state e" "mu (go g e) = mu e"
  "ctx (go g e) = ctx e" "contexts (go g e) = contexts e" "token (go g e) = token e"
  "demoteCalls (go g e) = demoteCalls e" "onDemote (go g e) = onDemote e" "key (go g e) = key e"
  "watcherRunning (go g e) = watcherRunning e" "log_ok (go g e) = log_ok e" "cancel (go g e) = cancel e"
  "leaderStartTime (go g e) = leaderStartTime e"
  by (simp_all add: go_def log_ok_def)

lemma log_then_log_ok:
  "log_ok e \<Longrightarrow> c = ctx e \<Longrightarrow> contexts e' = contexts e \<Longrightarrow> log_then c e' k = k"
  by (simp add: log_then_eq log_ok_def)

text \<open>
  A follower that sees an entry learns its leader and revision. It starts a takeover attempt
  exactly when it already knew this leader, takeover is allowed and its own priority is higher; so
  the first event about a new leader never starts one.
\<close>

theorem handleWatchEvent_follower:
  assumes "\<not> isLeader e" "log_ok e" "Value entry \<noteq> []" "Unmarshal_payload (Value entry) = Inr p"
  shows "\<exists>e'. handleWatchEvent now (Some entry) e = Done e' \<and> \<not> isLeader e' \<and>
    leaderID e' = pl_ID p \<and> revision e' = Revision entry \<and>
    gos e' = gos e @ (if leaderID e = pl_ID p \<and> AllowPriorityTakeover (cfg e) \<and> pl_Priority p < Priority (cfg e)
                      then [Go_takeover] else [])"
  using assms by (auto simp: handleWatchEvent_def Let_def log_then_log_ok [OF assms(2)])

definition demo_follower :: kvElection where
  "demo_follower = demo_leader\<lparr>isLeader := False, state := StateFollower, leaderID := ''node-2'', gos := []\<rparr>"

definition demo_entry :: Entry where
  "demo_entry = \<lparr>Key = ''demo-group'', Value = json_Marshal \<lparr>pl_ID = ''node-2'', pl_Token = ''t2'', pl_Priority = 0\<rparr>, Revision = 4\<rparr>"

lemma demo_entry_decodes:
  "Value demo_entry \<noteq> []"
  "Unmarshal_payload (Value demo_entry) = Inr \<lparr>pl_ID = ''node-2'', pl_Token = ''t2'', pl_Priority = 0\<rparr>"
  by code_simp+

lemma demo_leader_simps:
  "log_ok demo_leader" "\<not> mu demo_leader" "isLeader demo_leader" "InstanceID (cfg demo_leader) = ''node-1''"
  "onDemote demo_leader = Some 7" "demoteCalls demo_leader = []" "gos demo_leader = []"
  "log_ok demo_follower" "\<not> isLeader demo_follower" "gos demo_follower = []" "\<not> mu demo_follower"
  by (simp_all add: demo_follower_def demo_leader_def init_election_def log_ok_def can_log_def Background_def)

theorem handleWatchEvent_follower_witness:
  "\<exists>e'. handleWatchEvent 9 (Some demo_entry) demo_follower = Done e' \<and> \<not> isLeader e' \<and>
    leaderID e' = ''node-2'' \<and> revision e' = Revision demo_entry"
  using handleWatchEvent_follower [OF demo_leader_simps(9,8) demo_entry_decodes, of 9] by auto

text \<open>
  C15: A leader that sees an entry leads on exactly when the entry carries its own id. Otherwise it
  becomes a follower, with a watcher running, but the demotion callback is not called on this path.
\<close>

theorem handleWatchEvent_leader:
  assumes "isLeader e" "log_ok e" "\<not> mu e" "Value entry \<noteq> []" "Unmarshal_payload (Value entry) = Inr p"
  shows "\<exists>e'. handleWatchEvent now (Some entry) e = Done e' \<and>
    (isLeader e' \<longleftrightarrow> pl_ID p = InstanceID (cfg e)) \<and> demoteCalls e' = demoteCalls e \<and>
    (pl_ID p = InstanceID (cfg e) \<longrightarrow> e' = e) \<and>
    (pl_ID p \<noteq> InstanceID (cfg e) \<longrightarrow> state e' = StateFollower \<and> watcherRunning e')"
  using assms by (auto simp: handleWatchEvent_def log_then_ctx becomeFollower_outcome)

theorem handleWatchEvent_leader_witness:
  "\<exists>e'. handleWatchEvent 9 (Some demo_entry) demo_leader = Done e' \<and> \<not> isLeader e' \<and>
    onDemote demo_leader = Some 7 \<and> demoteCalls e' = [] \<and> state e' = StateFollower"
  using handleWatchEvent_leader [OF demo_leader_simps(3,1,2) demo_entry_decodes, of 9] demo_leader_simps by auto

subsection \<open>Re-election\<close>

text \<open>The key cannot be read, for whatever reason (also when it is there), or it is missing or empty.\<close>

definition unread_or_empty :: "'s KeyValue \<Rightarrow> 's world \<Rightarrow> bool" where
  "unread_or_empty kv w =
     (case fst (Get kv (key (el w)) (store w)) of
        Inr (Some entry) \<Rightarrow> Value entry = [] | _ \<Rightarrow> True)"

lemma checkKeyAndReelect_outcome:
  assumes "\<not> isLeader (el w)" "can_log c (contexts (el w))"
  shows "\<exists>w'. checkKeyAndReelect kv c w = Done w' \<and> store w' = snd (Get kv (key (el w)) (store w)) \<and>
    \<not> isLeader (el w') \<and> state (el w') = state (el w) \<and> token (el w') = token (el w) \<and>
    gos (el w') = gos (el w) @ (if unread_or_empty kv w then [Go_acquireWithRetry c] else [])"
  using assms
  by (cases "Get kv (key (el w)) (store w)")
    (auto simp: checkKeyAndReelect_def unread_or_empty_def Let_def log_then_eq split: sum.split option.split json.split)

text \<open>
  C17: The periodic check of a follower starts a new round of acquisition exactly when the read of the key
  fails, for whatever reason, or the key is missing or empty; it never makes the instance a leader by
  itself. In the watch loop this happens at every tick, so that a vacant key is noticed at the next tick
  even when no event is delivered; but a store that cannot be read at the moment starts a round as well.
\<close>

theorem watchLoop_reelects:
  assumes "\<not> isLeader (el (env w))" "can_log (Some c) (contexts (el (env w)))" "can_log (Some c) (contexts (el w))"
    and "Watch kv (key (el w)) (store w) = (Inr wt, store w)"
  shows "\<exists>w'. watchLoop kv (Some c) [Tick env CheckTick] w = Done (Continue 0 w') \<and> \<not> isLeader (el w') \<and>
    gos (el w') = gos (el (env w)) @ (if unread_or_empty kv (env w) then [Go_acquireWithRetry (Some c)] else [])"
proof -
  obtain w' where "checkKeyAndReelect kv (Some c) (env w) = Done w'" "\<not> isLeader (el w')"
    "gos (el w') = gos (el (env w)) @ (if unread_or_empty kv (env w) then [Go_acquireWithRetry (Some c)] else [])"
    using checkKeyAndReelect_outcome [OF assms(1,2)] by blast
  then show ?thesis using assms by (simp add: watchLoop_def log_then_eq)
qed

theorem watchLoop_reelects_witness:
  "\<exists>w'. watchLoop MockKeyValueAdapter (Some 0) [Tick id CheckTick]
      \<lparr>el = demo_follower, store = NewMockKeyValue, uuids = 0\<rparr> = Done (Continue 0 w') \<and> \<not> isLeader (el w') \<and>
    gos (el w') = [Go_acquireWithRetry (Some 0)]"
proof -
  let ?w = "\<lparr>el = demo_follower, store = NewMockKeyValue, uuids = 0\<rparr>"
  have c: "can_log (Some 0) (contexts demo_follower)"
    by (simp add: demo_follower_def demo_leader_def can_log_def Background_def)
  have k: "unread_or_empty MockKeyValueAdapter ?w"
    by (simp add: unread_or_empty_def MockKeyValueAdapter_def mock_Get_def NewMockKeyValue_def)
  have wt: "\<exists>wt. Watch MockKeyValueAdapter (key (el ?w)) (store ?w) = (Inr wt, store ?w)"
    by (simp add: MockKeyValueAdapter_def mock_Watch_def NewMockKeyValue_def)
  then obtain wt where "Watch MockKeyValueAdapter (key (el ?w)) (store ?w) = (Inr wt, store ?w)" by blast
  from watchLoop_reelects [of id ?w 0 MockKeyValueAdapter wt] this c k show ?thesis
    by (simp add: demo_leader_simps)
qed

end
