(* ===== verification/Disconnect.thy ===== *)
theory Disconnect
  imports Fencing
begin

text \<open>
  Losing and regaining the connection: the disconnect handler with its grace period,
  \<open>handleReconnect\<close>, \<open>verifyLeadershipAfterReconnect\<close> and \<open>handleReconnectVerificationFailed\<close> of
  \<open>leader/connection.go\<close>, and the dispatch from the monitor's callbacks to them. The handler's own
  mutex is taken and released by each of its methods and is left out; \<open>dh_timer\<close> is the time at
  which the grace period ends.
\<close>

subsection \<open>The disconnect handler\<close>

definition grace_period :: "ElectionConfig \<Rightarrow> duration" where
  "grace_period c =
     (if DisconnectGracePeriod c = 0
      then (let g = i64 (3 * HeartbeatInterval c) in if g < 5 * Second then 5 * Second else g)
      else DisconnectGracePeriod c)"

definition dh_handleDisconnect :: "int \<Rightarrow> kvElection \<Rightarrow> kvElection outcome" where
  "dh_handleDisconnect now e =
     (if \<not> isLeader e then Done e
      else log_then (ctx e) e
        (let e = observe (SetConnectionStatus False (getMetricsLabels e)) e
         in Done (e\<lparr>dHandler := map_option
              (\<lambda>d. \<lparr>dh_timer = Some (now + grace_period (cfg e)), dh_disconnectedAt = Some now\<rparr>) (dHandler e)\<rparr>)))"

definition handleGracePeriodExpired :: "int \<Rightarrow> kvElection \<Rightarrow> kvElection outcome" where
  "handleGracePeriodExpired now e =
     (if (case connectionMonitor e of None \<Rightarrow> False | Some m \<Rightarrow> mon_Status m \<noteq> ConnectionStatusDisconnected)
      then log_then (ctx e) e (Done e)
      else if isLeader e then log_then (ctx e) e (and_then (becomeFollower now e) run_onDemote)
      else Done e)"

definition dh_stop :: "disconnectHandler \<Rightarrow> disconnectHandler" where
  "dh_stop d = d\<lparr>dh_timer := None\<rparr>"

subsection \<open>Reconnecting\<close>

definition handleReconnect :: "kvElection \<Rightarrow> kvElection outcome" where
  "handleReconnect e0 =
     and_then (Lock e0) (\<lambda>e.
       log_then (ctx e) e
         (let e = observe (SetConnectionStatus True (getMetricsLabels e)) e in
          case dHandler e of
            None \<Rightarrow> Panicked
          | Some d \<Rightarrow>
              (let e = e\<lparr>dHandler := Some (d\<lparr>dh_timer := None\<rparr>)\<rparr> in
               if \<not> isLeader e then Done (Unlock e)
               else log_then (ctx e) e (Done (Unlock (go Go_verify e))))))"

text \<open>
  The failure handler takes the election's lock and, still holding it, calls \<open>becomeFollower\<close>,
  which takes the same lock.
\<close>

definition handleReconnectVerificationFailed :: "int \<Rightarrow> kvElection \<Rightarrow> kvElection outcome" where
  "handleReconnectVerificationFailed now e0 =
     and_then (Lock e0) (\<lambda>e.
       if isLeader e
       then log_then (ctx e) e
         (and_then (becomeFollower now e) (\<lambda>e. and_then (run_onDemote e) (\<lambda>e. Done (Unlock e))))
       else Done (Unlock e))"

text \<open>
  The goroutine started by \<open>handleReconnect\<close>. Its context is its own, with a timeout of two
  seconds: \<open>late\<close> is its error if it ends during the validation.
\<close>

definition verifyLeadershipAfterReconnect :: "'s KeyValue \<Rightarrow> int \<Rightarrow> error option \<Rightarrow> 's world \<Rightarrow> 's world outcome" where
  "verifyLeadershipAfterReconnect kv now late w0 =
     (let (r, st) = Get kv (key (el w0)) (store w0);
          w = w0\<lparr>store := st\<rparr>;
          fail = (\<lambda>w. and_then (handleReconnectVerificationFailed now (el w)) (\<lambda>e. Done (w\<lparr>el := e\<rparr>)))
      in case r of
           Inl err \<Rightarrow> fail w
         | Inr _ \<Rightarrow>
             and_then (validateToken kv Background late w) (\<lambda>((isValid, err), w1).
               if err \<noteq> None \<or> \<not> isValid then fail w1
               else
                 and_then (Lock (el w1)) (\<lambda>e.
                   if \<not> isLeader e then Done (w1\<lparr>el := Unlock e\<rparr>)
                   else
                     (let e = (case connectionMonitor e of
                                 None \<Rightarrow> e
                               | Some m \<Rightarrow>
                                   observe (SetConnectionStatus True (getMetricsLabels e))
                                     (e\<lparr>connectionMonitor := Some (mon_SetStatus ConnectionStatusConnected m)\<rparr>))
                      in Done (w1\<lparr>el := Unlock e\<rparr>)))))"

subsection \<open>Dispatch\<close>

text \<open>What the client library's callbacks run, through the monitor. Callbacks of others are ignored.\<close>

definition conn_disconnected :: "int \<Rightarrow> kvElection \<Rightarrow> kvElection outcome" where
  "conn_disconnected now e =
     (case connectionMonitor e of
        None \<Rightarrow> Done e
      | Some m \<Rightarrow>
          (let (h, m') = mon_handleDisconnect m;
               e = e\<lparr>connectionMonitor := Some m'\<rparr>
           in if h = Some H_disconnectHandler then dh_handleDisconnect now e else Done e))"

definition conn_reconnected :: "kvElection \<Rightarrow> kvElection outcome" where
  "conn_reconnected e =
     (case connectionMonitor e of
        None \<Rightarrow> Done e
      | Some m \<Rightarrow>
          (let (h, m') = mon_handleReconnect m;
               e = e\<lparr>connectionMonitor := Some m'\<rparr>
           in if h = Some H_handleReconnect then handleReconnect e else Done e))"

definition conn_closed :: "kvElection \<Rightarrow> kvElection" where
  "conn_closed e = e\<lparr>connectionMonitor := map_option mon_handleClosed (connectionMonitor e)\<rparr>"

subsection \<open>The grace period\<close>

text \<open>The expiry of the grace period for a leader whose connection is still down is a demotion.\<close>

definition lost_connection :: "kvElection \<Rightarrow> bool" where
  "lost_connection e \<longleftrightarrow>
     (case connectionMonitor e of None \<Rightarrow> True | Some m \<Rightarrow> mon_Status m = ConnectionStatusDisconnected)"

lemma handleGracePeriodExpired_outcome:
  "handleGracePeriodExpired now e =
     (if lost_connection e \<and> isLeader e
      then (if \<not> log_ok e then Panicked else if mu e then Blocked else Done (demoted_called now e))
      else if lost_connection e \<or> log_ok e then Done e else Panicked)"
  unfolding handleGracePeriodExpired_def demote_outcome
  by (auto simp: lost_connection_def log_then_ctx split: option.split)

text \<open>
  C12: When the grace period ends, an unlocked leader is demoted and its callback run exactly when
  the monitor reports the status disconnected; a leader that has reconnected leads on unchanged. A
  follower is left alone in both cases.
\<close>

theorem grace_period_decides:
  assumes "log_ok e" "\<not> mu e"
  shows "handleGracePeriodExpired now e =
    Done (if isLeader e \<and> lost_connection e then demoted_called now e else e)"
  using assms by (simp add: handleGracePeriodExpired_outcome)

definition monitored_leader :: "ConnectionStatus \<Rightarrow> kvElection" where
  "monitored_leader st =
     demo_leader\<lparr>connectionMonitor := Some
        (mon_SetStatus st (mon_OnReconnect (Some H_handleReconnect)
          (mon_OnDisconnect (Some H_disconnectHandler) (snd (mon_Start NewNATSConnectionMonitor))))),
      dHandler := Some \<lparr>dh_timer = None, dh_disconnectedAt = None\<rparr>\<rparr>"

lemma monitored_leader_simps:
  "log_ok (monitored_leader st)" "\<not> mu (monitored_leader st)" "isLeader (monitored_leader st)"
  "lost_connection (monitored_leader st) \<longleftrightarrow> st = ConnectionStatusDisconnected"
  "dHandler (monitored_leader st) = Some \<lparr>dh_timer = None, dh_disconnectedAt = None\<rparr>"
  "gos (monitored_leader st) = []" "onDemote (monitored_leader st) = Some 7" "demoteCalls (monitored_leader st) = []"
  "cfg (monitored_leader st) = demo_config ''node-1''"
  by (simp_all add: monitored_leader_def demo_leader_def init_election_def log_ok_def can_log_def Background_def
      lost_connection_def mon_defs)

theorem grace_period_decides_witness:
  "\<exists>e'. handleGracePeriodExpired 9 (monitored_leader ConnectionStatusDisconnected) = Done e' \<and>
    \<not> isLeader e' \<and> demoteCalls e' = [7]"
  using grace_period_decides [OF monitored_leader_simps(1,2), of 9 ConnectionStatusDisconnected]
  by (simp add: monitored_leader_simps)

text \<open>
  A connection that is closed for good counts as not disconnected: if the client closes it
  before the grace period ends, the expiry does not demote the leader.
\<close>

theorem closed_connection_keeps_leader:
  assumes "log_ok e" "\<not> mu e" "connectionMonitor e \<noteq> None"
  shows "handleGracePeriodExpired now (conn_closed e) = Done (conn_closed e)"
proof -
  have "log_ok (conn_closed e)" "\<not> lost_connection (conn_closed e)"
    using assms by (auto simp: conn_closed_def log_ok_def lost_connection_def mon_defs)
  then show ?thesis by (simp add: handleGracePeriodExpired_outcome)
qed

theorem closed_connection_keeps_leader_witness:
  "isLeader (conn_closed (monitored_leader ConnectionStatusDisconnected)) \<and>
   handleGracePeriodExpired 9 (conn_closed (monitored_leader ConnectionStatusDisconnected)) =
     Done (conn_closed (monitored_leader ConnectionStatusDisconnected))"
proof (rule conjI)
  show "isLeader (conn_closed (monitored_leader ConnectionStatusDisconnected))"
    by (simp add: conn_closed_def monitored_leader_simps)
  have "connectionMonitor (monitored_leader ConnectionStatusDisconnected) \<noteq> None" by (simp add: monitored_leader_def)
  from closed_connection_keeps_leader [OF monitored_leader_simps(1,2) this]
  show "handleGracePeriodExpired 9 (conn_closed (monitored_leader ConnectionStatusDisconnected)) =
     Done (conn_closed (monitored_leader ConnectionStatusDisconnected))" .
qed

text \<open>
  The length of the grace period. Under an accepted configuration whose heartbeat does not
  overflow it is at least two heartbeats, and at least three and five seconds when none is
  configured; a negative configured value is taken as it is and expires at once.
\<close>

theorem grace_period_bounds:
  assumes "wf_config c" "validateConfig c = None" "HeartbeatInterval c * 3 < 2 ^ 63"
  shows "(DisconnectGracePeriod c = 0 \<longrightarrow> grace_period c = max (3 * HeartbeatInterval c) (5 * Second)) \<and>
    (DisconnectGracePeriod c > 0 \<longrightarrow> 2 * HeartbeatInterval c \<le> grace_period c) \<and>
    (DisconnectGracePeriod c < 0 \<longrightarrow> grace_period c < 0)"
proof -
  have hb: "0 < HeartbeatInterval c" and g: "DisconnectGracePeriod c \<le> 0 \<or> i64 (HeartbeatInterval c * 2) \<le> DisconnectGracePeriod c"
    using assms(2) by (auto simp: validateConfig_None_iff)
  have i: "i64 (3 * HeartbeatInterval c) = 3 * HeartbeatInterval c" "i64 (HeartbeatInterval c * 2) = HeartbeatInterval c * 2"
    using hb assms(3) by (auto intro!: i64_id simp: in_i64_def)
  show ?thesis using i g by (auto simp: grace_period_def Let_def max_def)
qed

theorem grace_period_bounds_witness:
  "grace_period (demo_config ''a'') = 5 * Second"
  using grace_period_bounds [of "demo_config ''a''"] demo_config_valid [of "''a''"]
  by (simp add: wf_config_def in_i64_def)

subsection \<open>Reconnecting in time\<close>

text \<open>
  C24: An outage shorter than the grace period costs nothing but a verification: after a disconnect
  and a reconnect the leader still leads with its token and revision, the grace timer is cleared, the
  verification has been started once, and even an expiry that was already on its way demotes nobody.
\<close>

theorem short_outage:
  assumes "isLeader e" "log_ok e" "\<not> mu e" "connectionMonitor e = Some m" "dHandler e = Some d"
    and "mon_disconnectHandler m = Some H_disconnectHandler" "mon_reconnectHandler m = Some H_handleReconnect"
  shows "\<exists>e1 e2. conn_disconnected now e = Done e1 \<and> conn_reconnected e1 = Done e2 \<and>
    dHandler e1 = Some \<lparr>dh_timer = Some (now + grace_period (cfg e)), dh_disconnectedAt = Some now\<rparr> \<and>
    isLeader e2 \<and> token e2 = token e \<and> revision e2 = revision e \<and> demoteCalls e2 = demoteCalls e \<and>
    map_option dh_timer (dHandler e2) = Some None \<and> gos e2 = gos e @ [Go_verify] \<and>
    handleGracePeriodExpired later e2 = Done e2"
proof -
  obtain m1 where m1: "mon_handleDisconnect m = (Some H_disconnectHandler, m1)" "mon_reconnectHandler m1 = Some H_handleReconnect"
    using assms(6,7) by (simp add: mon_defs)
  let ?e1 = "(observe (SetConnectionStatus False (getMetricsLabels (e\<lparr>connectionMonitor := Some m1\<rparr>))) (e\<lparr>connectionMonitor := Some m1\<rparr>))
    \<lparr>dHandler := Some \<lparr>dh_timer = Some (now + grace_period (cfg e)), dh_disconnectedAt = Some now\<rparr>\<rparr>"
  have d: "conn_disconnected now e = Done ?e1"
    using assms m1 by (simp add: conn_disconnected_def dh_handleDisconnect_def log_then_eq log_ok_def observe_eq Let_def)
  obtain e2 where e2: "conn_reconnected ?e1 = Done e2" "isLeader e2" "token e2 = token e" "revision e2 = revision e"
    "demoteCalls e2 = demoteCalls e" "map_option dh_timer (dHandler e2) = Some None" "gos e2 = gos e @ [Go_verify]"
    "log_ok e2" "\<not> lost_connection e2"
    using assms m1(2)
    by (auto simp: conn_reconnected_def handleReconnect_def mon_handleReconnect_def mon_Status_def Lock_def Unlock_def
        log_then_eq log_ok_def observe_eq go_def Let_def lost_connection_def)
  have "handleGracePeriodExpired later e2 = Done e2" using e2(8,9) by (simp add: handleGracePeriodExpired_outcome)
  with d e2 show ?thesis by (intro exI [of _ ?e1] exI [of _ e2]) (simp add: observe_eq)
qed

theorem short_outage_witness:
  "\<exists>e1 e2. conn_disconnected 3 (monitored_leader ConnectionStatusConnected) = Done e1 \<and> conn_reconnected e1 = Done e2 \<and>
    isLeader e2 \<and> gos e2 = [Go_verify]"
proof -
  obtain m where m: "connectionMonitor (monitored_leader ConnectionStatusConnected) = Some m"
    "mon_disconnectHandler m = Some H_disconnectHandler" "mon_reconnectHandler m = Some H_handleReconnect"
    by (simp add: monitored_leader_def mon_defs)
  from short_outage [OF monitored_leader_simps(3,1,2) m(1) monitored_leader_simps(5) m(2,3), of 3 9]
  show ?thesis by (auto simp: monitored_leader_simps)
qed

subsection \<open>Verification after a reconnect\<close>

lemma reconnect_failure_blocks:
  "\<not> mu e \<Longrightarrow> log_ok e \<Longrightarrow> isLeader e \<Longrightarrow> handleReconnectVerificationFailed now e = Blocked"
  by (simp add: handleReconnectVerificationFailed_def Lock_def log_then_eq log_ok_def becomeFollower_outcome)

text \<open>
  C22: The verification of a leader after a reconnect returns exactly when the leadership is
  confirmed; then the leader leads on and the monitor, if any, says connected. In every other case
  (the store cannot be read, or the token is not current) the goroutine waits for ever for a lock it
  holds itself: the leader is not demoted and its lock is never released.
\<close>

theorem reconnect_verification:
  assumes "isLeader (el w)" "log_ok (el w)" "\<not> mu (el w)"
    and frame: "\<And>k s. fst (Get kv k (snd (Get kv k s))) = fst (Get kv k s)"
  shows "if token_current kv w \<and> late = None
    then \<exists>w'. verifyLeadershipAfterReconnect kv now late w = Done w' \<and> isLeader (el w') \<and> \<not> mu (el w') \<and>
      map_option mon_Status (connectionMonitor (el w')) = map_option (\<lambda>_. ConnectionStatusConnected) (connectionMonitor (el w))
    else verifyLeadershipAfterReconnect kv now late w = Blocked"
proof -
  obtain r st where g: "Get kv (key (el w)) (store w) = (r, st)" by (cases "Get kv (key (el w)) (store w)")
  let ?w = "w\<lparr>store := st\<rparr>"
  have cur: "token_current kv ?w = token_current kv w"
    using frame [of "key (el w)" "store w"] g by (simp add: token_current_def split: sum.split option.split)
  show ?thesis
  proof (cases r)
    case (Inl err)
    then have "\<not> token_current kv w" using g by (simp add: token_current_def)
    with Inl g assms show ?thesis by (simp add: verifyLeadershipAfterReconnect_def reconnect_failure_blocks)
  next
    case (Inr en)
    obtain v err w1 where v: "validateToken kv Background late ?w = Done ((v, err), w1)"
      using validateToken_returns [of Background kv late ?w] by (auto simp: Background_def)
    have f: "v \<longleftrightarrow> err = None" "same_but_metrics (el w) (el w1)" using validateToken_frame [OF v] by simp_all
    have val: "v \<longleftrightarrow> token_current kv w \<and> late = None"
      using validateToken_value [OF v] cur by (simp add: Background_def)
    note s = same_but_metricsD [OF f(2)]
    have cm: "connectionMonitor (el w1) = connectionMonitor (el w)"
      using f(2) by (cases "el w"; cases "el w1") (simp add: same_but_metrics_def)
    show ?thesis
    proof (cases v)
      case True
      with v f(1) val g Inr s cm assms show ?thesis
        by (auto simp: verifyLeadershipAfterReconnect_def Lock_def Unlock_def Let_def observe_eq mon_defs split: option.split)
    next
      case False
      with v f(1) g Inr s assms
      have "verifyLeadershipAfterReconnect kv now late w = Blocked"
        by (simp add: verifyLeadershipAfterReconnect_def reconnect_failure_blocks)
      with False val show ?thesis by auto
    qed
  qed
qed

theorem reconnect_verification_witness:
  "verifyLeadershipAfterReconnect broken_kv 3 None (demo_world demo_value) = Blocked"
proof -
  have "\<not> token_current broken_kv (demo_world demo_value)" by (simp add: token_current_def broken_kv_def)
  moreover have "log_ok (el (demo_world demo_value))" "\<not> mu (el (demo_world demo_value))"
    using demo_world_running [of demo_value] by (simp_all add: loop_ctx_def)
  ultimately show ?thesis
    using reconnect_verification [of "demo_world demo_value" broken_kv None 3] demo_world_running [of demo_value]
    by (simp add: broken_kv_def)
qed

end
