(* ===== verification/Go_Float.thy ===== *)
theory Go_Float
  imports Complex_Main Leader_Prelude
begin

text \<open>
  Go's \<open>float64\<close>, as far as the program computes with it: IEEE 754 binary64 with rounding to nearest,
  ties to even, each operation rounded on its own (as on amd64, where the compiler fuses none). A
  finite value is its rational number, so the two zeros are one. \<open>math.Pow\<close> is the algorithm of Go's
  standard library for an exponent converted from an \<open>int\<close>.
\<close>

subsection \<open>Rounding\<close>

fun ilog2 :: "nat \<Rightarrow> nat" where
  "ilog2 n = (if n \<le> 1 then 0 else ilog2 (n div 2) + 1)"

declare ilog2.simps [simp del]

text \<open>The exponent of the leading bit of a positive rational.\<close>

definition expo :: "rat \<Rightarrow> int" where
  "expo x = (let (a, b) = quotient_of x; k = int (ilog2 (nat a)) - int (ilog2 (nat b))
     in if 2 powi k \<le> x then k else k - 1)"

definition round_even :: "rat \<Rightarrow> int" where
  "round_even y = (let f = \<lfloor>y\<rfloor>; d = y - of_int f
     in if d < 1/2 \<or> d = 1/2 \<and> even f then f else f + 1)"

text \<open>The exponent of the last place: 53 significant bits, or the end of the subnormal range.\<close>

definition ulp_exp :: "rat \<Rightarrow> int" where
  "ulp_exp x = max (expo x - 52) (- 1074)"

definition rnd :: "rat \<Rightarrow> rat" where
  "rnd x = (if x = 0 then 0
     else let u = 2 powi ulp_exp \<bar>x\<bar> in sgn x * (of_int (round_even (\<bar>x\<bar> / u)) * u))"

datatype float64 = Val rat | PosInf | NegInf | NaN

definition round64 :: "rat \<Rightarrow> float64" where
  "round64 x = (let r = rnd x in if 2 ^ 1024 \<le> r then PosInf else if r \<le> - (2 ^ 1024) then NegInf else Val r)"

subsection \<open>Operations\<close>

definition signed_inf :: "bool \<Rightarrow> float64" where
  "signed_inf pos = (if pos then PosInf else NegInf)"

fun f_mul :: "float64 \<Rightarrow> float64 \<Rightarrow> float64" where
  "f_mul NaN _ = NaN"
| "f_mul _ NaN = NaN"
| "f_mul (Val x) (Val y) = round64 (x * y)"
| "f_mul (Val x) PosInf = (if x = 0 then NaN else signed_inf (0 < x))"
| "f_mul (Val x) NegInf = (if x = 0 then NaN else signed_inf (x < 0))"
| "f_mul PosInf (Val y) = (if y = 0 then NaN else signed_inf (0 < y))"
| "f_mul NegInf (Val y) = (if y = 0 then NaN else signed_inf (y < 0))"
| "f_mul PosInf PosInf = PosInf"
| "f_mul NegInf NegInf = PosInf"
| "f_mul PosInf NegInf = NegInf"
| "f_mul NegInf PosInf = NegInf"

fun f_add :: "float64 \<Rightarrow> float64 \<Rightarrow> float64" where
  "f_add NaN _ = NaN"
| "f_add _ NaN = NaN"
| "f_add (Val x) (Val y) = round64 (x + y)"
| "f_add (Val x) z = z"
| "f_add z (Val y) = z"
| "f_add PosInf PosInf = PosInf"
| "f_add NegInf NegInf = NegInf"
| "f_add _ _ = NaN"

fun f_neg :: "float64 \<Rightarrow> float64" where
  "f_neg (Val x) = Val (- x)"
| "f_neg PosInf = NegInf"
| "f_neg NegInf = PosInf"
| "f_neg NaN = NaN"

definition f_sub :: "float64 \<Rightarrow> float64 \<Rightarrow> float64" where
  "f_sub x y = f_add x (f_neg y)"

fun f_less :: "float64 \<Rightarrow> float64 \<Rightarrow> bool" where
  "f_less (Val x) (Val y) = (x < y)"
| "f_less (Val x) PosInf = True"
| "f_less NegInf (Val y) = True"
| "f_less NegInf PosInf = True"
| "f_less _ _ = False"

definition f_of_int :: "int \<Rightarrow> float64" where
  "f_of_int n = round64 (of_int n)"

text \<open>
  Conversion to a 64-bit integer truncates. The result for a value out of range is
  implementation-dependent: \<open>impl\<close> is the implementation's choice.
\<close>

definition trunc_int :: "rat \<Rightarrow> int" where
  "trunc_int x = (if 0 \<le> x then \<lfloor>x\<rfloor> else \<lceil>x\<rceil>)"

fun f_to_i64 :: "(float64 \<Rightarrow> int) \<Rightarrow> float64 \<Rightarrow> int" where
  "f_to_i64 impl (Val x) = (if in_i64 (trunc_int x) then trunc_int x else impl (Val x))"
| "f_to_i64 impl f = impl f"

text \<open>\<open>rand.Float64()\<close> of \<open>math/rand/v2\<close>: 53 random bits, scaled.\<close>

definition rand_Float64 :: "nat \<Rightarrow> float64" where
  "rand_Float64 bits = Val (of_nat (bits mod 2 ^ 53) / 2 ^ 53)"

subsection \<open>\<open>math.Pow\<close>\<close>

text \<open>\<open>math.Frexp\<close> of a finite non-zero value.\<close>

definition frexp :: "rat \<Rightarrow> rat \<times> int" where
  "frexp x = (let e = expo \<bar>x\<bar> + 1 in (x / 2 powi e, e))"

fun pow_loop :: "nat \<Rightarrow> rat \<Rightarrow> int \<Rightarrow> rat \<Rightarrow> int \<Rightarrow> rat \<times> int" where
  "pow_loop i a1 ae x1 xe =
     (if i = 0 then (a1, ae)
      else if xe < - 4096 \<or> 4096 < xe then (a1, ae + xe)
      else
        let (a1, ae) = (if odd i then (rnd (a1 * x1), ae + xe) else (a1, ae));
            x1 = rnd (x1 * x1);
            xe = 2 * xe;
            (x1, xe) = (if x1 < 1/2 then (x1 + x1, xe - 1) else (x1, xe))
        in pow_loop (i div 2) a1 ae x1 xe)"

declare pow_loop.simps [simp del]

text \<open>The exponent \<open>y\<close> is the value of a converted \<open>int\<close>.\<close>

definition math_Pow :: "float64 \<Rightarrow> int \<Rightarrow> float64" where
  "math_Pow x y =
     (if y = 0 \<or> x = Val 1 then Val 1
      else if y = 1 then x
      else case x of
        NaN \<Rightarrow> NaN
      | PosInf \<Rightarrow> if y < 0 then Val 0 else PosInf
      | NegInf \<Rightarrow> if y < 0 then Val 0 else signed_inf (even y)
      | Val v \<Rightarrow>
          if v = 0 then (if y < 0 then PosInf else Val 0)
          else if 2 ^ 63 \<le> \<bar>y\<bar> then
            (if v = - 1 then Val 1
             else if (\<bar>v\<bar> < 1) = (0 < y) then Val 0 else PosInf)
          else
            let (x1, xe) = frexp v;
                (a1, ae) = pow_loop (nat \<bar>y\<bar>) 1 0 x1 xe;
                (a1, ae) = (if y < 0 then (rnd (1 / a1), - ae) else (a1, ae))
            in round64 (a1 * 2 powi ae))"

subsection \<open>Properties of rounding\<close>

lemma ilog2_bounds: "0 < n \<Longrightarrow> 2 ^ ilog2 n \<le> n \<and> n < 2 ^ (ilog2 n + 1)"
proof (induction n rule: ilog2.induct)
  case (1 n)
  show ?case
  proof (cases "n \<le> 1")
    case True
    then show ?thesis using 1(2) by (subst (1 2) ilog2.simps) simp
  next
    case False
    with 1(1) have "2 ^ ilog2 (n div 2) \<le> n div 2" "n div 2 < 2 ^ (ilog2 (n div 2) + 1)" by auto
    then show ?thesis using False by (subst (1 2) ilog2.simps) auto
  qed
qed

lemma powi_add_rat: "(2::rat) powi (a + b) = 2 powi a * 2 powi b"
  by (rule power_int_add) simp

lemma powi_mono: "a \<le> b \<Longrightarrow> (2::rat) powi a \<le> 2 powi b"
  by (rule power_int_increasing) simp_all

lemma powi_nonneg_int: "0 \<le> a \<Longrightarrow> (2::rat) powi a = of_int (2 ^ nat a)"
  by (simp add: power_int_def)

lemma expo_bounds:
  assumes "0 < x"
  shows "2 powi expo x \<le> x \<and> x < 2 powi (expo x + 1)"
proof -
  obtain a b where q: "quotient_of x = (a, b)" by (cases "quotient_of x")
  have b: "0 < b" using quotient_of_denom_pos [OF q] .
  have x: "x = of_int a / of_int b" using quotient_of_div [OF q] .
  have a: "0 < a" using assms b by (simp add: x zero_less_divide_iff)
  let ?la = "ilog2 (nat a)" and ?lb = "ilog2 (nat b)"
  have B: "(2::rat) ^ ilog2 (nat c) \<le> of_int c \<and> of_int c < (2::rat) ^ (ilog2 (nat c) + 1)" if "0 < c" for c
  proof -
    have "2 ^ ilog2 (nat c) \<le> nat c" "nat c < 2 ^ (ilog2 (nat c) + 1)" using ilog2_bounds [of "nat c"] that by simp_all
    then have "int (2 ^ ilog2 (nat c)) \<le> c" "c < int (2 ^ (ilog2 (nat c) + 1))" using that by linarith+
    then have "of_int (int (2 ^ ilog2 (nat c))) \<le> (of_int c :: rat)" "of_int c < (of_int (int (2 ^ (ilog2 (nat c) + 1))) :: rat)"
      by (simp_all only: of_int_le_iff of_int_less_iff)
    then show ?thesis by simp
  qed
  let ?k = "int ?la - int ?lb"
  have pk: "(2::rat) powi ?k = 2 ^ ?la / 2 ^ ?lb" by (simp add: power_int_diff)
  have lo: "2 powi (?k - 1) \<le> x"
  proof -
    have "(2::rat) powi (?k - 1) = 2 ^ ?la / 2 ^ (?lb + 1)" by (simp add: power_int_diff)
    also have "\<dots> \<le> x" unfolding x using B [OF a] B [OF b] a b by (intro frac_le) auto
    finally show ?thesis .
  qed
  have hi: "x < 2 powi (?k + 1)"
  proof -
    have "x < 2 ^ (?la + 1) / 2 ^ ?lb" unfolding x using B [OF a] B [OF b] a b by (intro frac_less) auto
    also have "\<dots> = 2 powi (?k + 1)" by (simp add: power_int_add power_int_diff)
    finally show ?thesis .
  qed
  show ?thesis using lo hi by (simp add: expo_def q Let_def)
qed

lemma round_even_le: "y \<le> of_int n \<Longrightarrow> round_even y \<le> n"
  by (auto simp: round_even_def Let_def) linarith+

lemma round_even_ge: "of_int n \<le> y \<Longrightarrow> n \<le> round_even y"
  by (auto simp: round_even_def Let_def) linarith+

lemma round_even_of_int [simp]: "round_even (of_int n) = n"
  by (simp add: round_even_def)

lemma round_even_error: "\<bar>of_int (round_even y) - y\<bar> \<le> 1 / 2"
proof -
  have "of_int \<lfloor>y\<rfloor> \<le> y" "y < of_int \<lfloor>y\<rfloor> + 1" by linarith+
  moreover have "round_even y = \<lfloor>y\<rfloor> \<and> y - of_int \<lfloor>y\<rfloor> \<le> 1 / 2 \<or> round_even y = \<lfloor>y\<rfloor> + 1 \<and> 1 / 2 \<le> y - of_int \<lfloor>y\<rfloor>"
    by (simp only: round_even_def Let_def split: if_split) auto
  ultimately show ?thesis by auto
qed

text \<open>Values that can be represented (up to overflow).\<close>

definition repr :: "rat \<Rightarrow> bool" where
  "repr b \<longleftrightarrow> (\<exists>m k. b = of_int m * 2 powi k \<and> \<bar>m\<bar> \<le> 2 ^ 53 \<and> - 1074 \<le> k)"

lemma repr_int: "\<bar>n\<bar> \<le> 2 ^ 53 \<Longrightarrow> repr (of_int n)"
  unfolding repr_def by (rule exI [of _ n], rule exI [of _ 0]) simp

lemma repr_minus [simp]: "repr (- b) = repr b"
proof -
  have "repr (- b)" if r: "repr b" for b
  proof -
    obtain m k where "b = of_int m * 2 powi k" "\<bar>m\<bar> \<le> 2 ^ 53" "- 1074 \<le> k" using r by (auto simp: repr_def)
    then show ?thesis unfolding repr_def by (intro exI [of _ "- m"] exI [of _ k]) simp
  qed
  from this [of b] this [of "- b"] show ?thesis by auto
qed

lemma rnd_0 [simp]: "rnd 0 = 0"
  by (simp add: rnd_def)

lemma rnd_minus [simp]: "rnd (- x) = - rnd x"
  by (simp add: rnd_def Let_def)

lemma rnd_pos: "0 < x \<Longrightarrow> rnd x = of_int (round_even (x / 2 powi ulp_exp x)) * 2 powi ulp_exp x"
  by (simp add: rnd_def Let_def)

text \<open>
  A representable bound is either a multiple of the last place of \<open>x\<close> or at most the power of two at
  or below \<open>x\<close>.
\<close>

lemma repr_ulp:
  assumes "repr b" "0 \<le> b" "0 < x"
  shows "(\<exists>n. b = of_int n * 2 powi ulp_exp x) \<or> b \<le> 2 powi expo x \<and> (2::rat) powi expo x = of_int (2 ^ 52) * 2 powi ulp_exp x"
proof -
  obtain m k where b: "b = of_int m * 2 powi k" "\<bar>m\<bar> \<le> 2 ^ 53" "- 1074 \<le> k" using assms(1) by (auto simp: repr_def)
  show ?thesis
  proof (cases "ulp_exp x \<le> k")
    case True
    have "(2::rat) powi k = 2 powi (k - ulp_exp x) * 2 powi ulp_exp x" using powi_add_rat [of "k - ulp_exp x" "ulp_exp x"] by simp
    then have "b = of_int (m * 2 ^ nat (k - ulp_exp x)) * 2 powi ulp_exp x"
      using True powi_nonneg_int [of "k - ulp_exp x"] b(1) by simp
    then show ?thesis by blast
  next
    case False
    then have u: "ulp_exp x = expo x - 52" using b(3) by (simp add: ulp_exp_def)
    have "(2::rat) powi expo x = 2 powi (52 + ulp_exp x)" using u by simp
    also have "\<dots> = of_int (2 ^ 52) * 2 powi ulp_exp x" by (simp add: powi_add_rat powi_nonneg_int)
    finally have p: "(2::rat) powi expo x = of_int (2 ^ 52) * 2 powi ulp_exp x" .
    have "b \<le> of_int (2 ^ 53) * 2 powi k" unfolding b(1) using b(2) by (intro mult_right_mono) (auto simp del: of_int_power)
    also have "\<dots> = 2 powi (53 + k)" by (simp add: powi_add_rat)
    also have "\<dots> \<le> 2 powi expo x" using False u by (intro powi_mono) simp
    finally show ?thesis using p by blast
  qed
qed

lemma rnd_le_pos:
  assumes "0 < x" "x \<le> b" "repr b"
  shows "rnd x \<le> b"
proof -
  let ?u = "2 powi ulp_exp x :: rat"
  have u: "0 < ?u" by simp
  consider (multiple) n where "b = of_int n * ?u" | (power) "b \<le> 2 powi expo x" "(2::rat) powi expo x = of_int (2 ^ 52) * ?u"
    using repr_ulp [of b x] assms by auto
  then show ?thesis
  proof cases
    case multiple
    then have "x / ?u \<le> of_int n" using assms(2) u by (simp add: divide_le_eq)
    then have "round_even (x / ?u) \<le> n" by (rule round_even_le)
    then show ?thesis using multiple u by (simp add: rnd_pos [OF assms(1)])
  next
    case power
    then have "x = of_int (2 ^ 52) * ?u" using assms(2) expo_bounds [OF assms(1)] by simp
    moreover from this have "x / ?u = of_int (2 ^ 52)" using u by (simp add: divide_eq_eq)
    then have "round_even (x / ?u) = 2 ^ 52" by (simp only: round_even_of_int)
    ultimately show ?thesis using assms(2) by (simp add: rnd_pos [OF assms(1)])
  qed
qed

lemma rnd_ge_pos:
  assumes "0 < x" "b \<le> x" "0 \<le> b" "repr b"
  shows "b \<le> rnd x"
proof -
  let ?u = "2 powi ulp_exp x :: rat"
  have u: "0 < ?u" by simp
  consider (multiple) n where "b = of_int n * ?u" | (power) "b \<le> 2 powi expo x" "(2::rat) powi expo x = of_int (2 ^ 52) * ?u"
    using repr_ulp [of b x] assms by auto
  then obtain n where n: "b \<le> of_int n * ?u" "of_int n * ?u \<le> x"
    using assms(2) expo_bounds [OF assms(1)] by cases (metis order_refl, metis)
  then have "of_int n \<le> x / ?u" using u by (simp add: le_divide_eq)
  then have "n \<le> round_even (x / ?u)" by (rule round_even_ge)
  then have "of_int n * ?u \<le> rnd x" using u by (simp add: rnd_pos [OF assms(1)])
  with n(1) show ?thesis by simp
qed

lemma rnd_nonneg: "0 \<le> x \<Longrightarrow> 0 \<le> rnd x"
  using rnd_ge_pos [of x 0] repr_int [of 0] by (cases "x = 0") auto

lemma rnd_le: "0 \<le> x \<Longrightarrow> x \<le> b \<Longrightarrow> repr b \<Longrightarrow> rnd x \<le> b"
  using rnd_le_pos [of x b] by (cases "x = 0") auto

lemma rnd_ge: "0 \<le> b \<Longrightarrow> b \<le> x \<Longrightarrow> repr b \<Longrightarrow> b \<le> rnd x"
  using rnd_ge_pos [of x b] by (cases "x = 0") auto

lemma rnd_abs_le: "\<bar>x\<bar> \<le> b \<Longrightarrow> repr b \<Longrightarrow> \<bar>rnd x\<bar> \<le> b"
  using rnd_le [of x b] rnd_le [of "- x" b] rnd_nonneg [of x] rnd_nonneg [of "- x"] by (cases "0 \<le> x") auto

lemma rnd_exact: "repr x \<Longrightarrow> rnd x = x"
  using rnd_le [of x x] rnd_ge [of x x] rnd_le [of "- x" "- x"] rnd_ge [of "- x" "- x"] by (cases "0 \<le> x") auto

lemma repr_rnd: "repr (rnd x)"
proof -
  have p: "repr (rnd y)" if "0 < y" for y
  proof -
    let ?u = "2 powi ulp_exp y :: rat"
    have "(2::rat) powi (expo y + 1) \<le> 2 powi (53 + ulp_exp y)" by (intro powi_mono) (simp add: ulp_exp_def)
    then have "y \<le> of_int (2 ^ 53) * ?u" using expo_bounds [OF that] by (simp add: powi_add_rat)
    then have "round_even (y / ?u) \<le> 2 ^ 53" by (intro round_even_le) (simp add: divide_le_eq)
    moreover have "0 \<le> round_even (y / ?u)" using that by (intro round_even_ge) simp
    ultimately show ?thesis unfolding rnd_pos [OF that] repr_def
      by (intro exI [of _ "round_even (y / ?u)"] exI [of _ "ulp_exp y"]) (simp add: ulp_exp_def)
  qed
  show ?thesis
    using p [of x] p [of "- x"] repr_int [of 0] by (cases x "0::rat" rule: linorder_cases) auto
qed

lemma rnd_error: "2 powi (- 1022) \<le> \<bar>x\<bar> \<Longrightarrow> \<bar>rnd x - x\<bar> \<le> \<bar>x\<bar> / 2 ^ 53"
proof -
  have p: "\<bar>rnd y - y\<bar> \<le> y / 2 ^ 53" if y: "2 powi (- 1022) \<le> y" for y
  proof -
    have pos: "0 < y" using y less_le_trans [OF zero_less_power_int [of "2::rat" "- 1022"]] by simp
    have "(2::rat) powi (- 1022) < 2 powi (expo y + 1)" using y expo_bounds [OF pos] by linarith
    then have "- 1022 < expo y + 1" using powi_mono [of "expo y + 1" "- 1022"] by linarith
    then have u: "ulp_exp y = expo y - 52" by (simp add: ulp_exp_def)
    let ?u = "2 powi ulp_exp y :: rat"
    have "rnd y - y = (of_int (round_even (y / ?u)) - y / ?u) * ?u" by (simp add: rnd_pos [OF pos] left_diff_distrib)
    then have "\<bar>rnd y - y\<bar> \<le> 1 / 2 * ?u" using round_even_error [of "y / ?u"] by (simp add: abs_mult)
    also have "\<dots> = 2 powi expo y / 2 ^ 53" unfolding u by (simp add: power_int_diff)
    also have "\<dots> \<le> y / 2 ^ 53" using expo_bounds [OF pos] by (simp add: divide_right_mono)
    finally show ?thesis .
  qed
  assume "2 powi (- 1022) \<le> \<bar>x\<bar>"
  with p [of x] p [of "- x"] show ?thesis by (cases "0 \<le> x") auto
qed

end
