(* ===== verification/Backoff.thy ===== *)
theory Backoff
  imports Go_Float
begin

text \<open>
  \<open>CalculateBackoff\<close> of \<open>leader/retry.go\<close>: the length of the sleep before a retry, computed in
  floating point. The random bits and the conversion of values out of the range of an \<open>int64\<close> are
  arguments.
\<close>

record BackoffConfig =
  InitialBackoff :: duration
  MaxBackoff :: duration
  BackoffMultiplier :: float64
  Jitter :: float64

definition DefaultBackoffConfig :: BackoffConfig where
  "DefaultBackoffConfig =
     \<lparr>InitialBackoff = 50 * Millisecond, MaxBackoff = 5 * Second, BackoffMultiplier = Val 2, Jitter = round64 (1/10)\<rparr>"

text \<open>The value of \<open>float64(n)\<close> for an \<open>int\<close>, an integer itself.\<close>

definition f_int :: "int \<Rightarrow> int" where
  "f_int n = trunc_int (rnd (of_int n))"

definition CalculateBackoff :: "(float64 \<Rightarrow> int) \<Rightarrow> nat \<Rightarrow> BackoffConfig \<Rightarrow> int \<Rightarrow> duration" where
  "CalculateBackoff impl bits c attempt =
     (let backoff = f_mul (f_of_int (InitialBackoff c)) (math_Pow (BackoffMultiplier c) (f_int attempt));
          backoff = (if f_less (f_of_int (MaxBackoff c)) backoff then f_of_int (MaxBackoff c) else backoff);
          jitterAmount = f_mul (f_mul backoff (Jitter c)) (f_sub (f_mul (rand_Float64 bits) (Val 2)) (Val 1));
          finalBackoff = f_add backoff jitterAmount;
          finalBackoff = (if f_less finalBackoff (Val 0) then backoff else finalBackoff)
      in f_to_i64 impl finalBackoff)"

subsection \<open>Operations on values in range\<close>

lemma round64_Val:
  assumes "\<bar>x\<bar> \<le> b" "repr b" "b < 2 ^ 1024"
  shows "round64 x = Val (rnd x)"
proof -
  have "\<bar>rnd x\<bar> < 2 ^ 1024" using rnd_abs_le [OF assms(1,2)] assms(3) by (rule le_less_trans)
  then have "\<not> 2 ^ 1024 \<le> rnd x" "\<not> rnd x \<le> - (2 ^ 1024)" by linarith+
  then show ?thesis by (simp only: round64_def Let_def if_False)
qed

lemma round64_nonneg: "0 \<le> x \<Longrightarrow> round64 x = PosInf \<or> round64 x = Val (rnd x)"
proof -
  assume "0 \<le> x"
  then have "\<not> rnd x \<le> - (2 ^ 1024)" using rnd_nonneg [of x] zero_less_power [of "2::rat" 1024] by linarith
  then show ?thesis by (simp only: round64_def Let_def if_False split: if_split) simp
qed

lemma small_bound: "b \<le> of_int (2 ^ 54) \<Longrightarrow> b < (2 :: rat) ^ 1024"
proof -
  assume "b \<le> of_int (2 ^ 54)"
  also have "of_int (2 ^ 54) = (2::rat) ^ 54" by simp
  also have "\<dots> < 2 ^ 1024" by (rule power_strict_increasing) simp_all
  finally show ?thesis .
qed

lemma repr_twice_int: "\<bar>n\<bar> \<le> 2 ^ 53 \<Longrightarrow> repr (2 * of_int n)"
  unfolding repr_def by (rule exI [of _ n], rule exI [of _ 1]) simp

lemma f_of_int_small: "\<bar>n\<bar> \<le> 2 ^ 53 \<Longrightarrow> f_of_int n = Val (of_int n)"
proof -
  assume n: "\<bar>n\<bar> \<le> 2 ^ 53"
  have "\<bar>of_int n :: rat\<bar> \<le> of_int (2 ^ 53)" using n by (simp only: of_int_abs [symmetric] of_int_le_iff)
  then have "round64 (of_int n) = Val (rnd (of_int n))"
    by (rule round64_Val) (simp_all only: repr_int abs_power_minus abs_numeral power_abs order_refl, rule small_bound, simp)
  then show ?thesis using rnd_exact [OF repr_int [OF n]] by (simp add: f_of_int_def)
qed

text \<open>The random factor lies between -1 and 1.\<close>

lemma random_factor:
  obtains q where "f_sub (f_mul (rand_Float64 bits) (Val 2)) (Val 1) = Val q" "\<bar>q\<bar> \<le> 1"
proof -
  let ?r = "of_nat (bits mod 2 ^ 53) / 2 ^ 53 :: rat"
  have "of_nat (bits mod 2 ^ 53) \<le> (of_nat (2 ^ 53) :: rat)" by (simp only: of_nat_le_iff mod_le_divisor zero_less_power zero_less_numeral less_imp_le mod_less_divisor)
  then have r: "0 \<le> ?r" "?r \<le> 1" by (simp_all add: divide_le_eq)
  have "f_mul (rand_Float64 bits) (Val 2) = Val (rnd (?r * 2))"
    using r repr_int [of 2] round64_Val [of "?r * 2" 2] small_bound [of 2] by (simp add: rand_Float64_def)
  moreover have t: "0 \<le> rnd (?r * 2)" "rnd (?r * 2) \<le> 2"
    using r rnd_nonneg [of "?r * 2"] rnd_le [of "?r * 2" 2] repr_int [of 2] by simp_all
  moreover have "round64 (rnd (?r * 2) - 1) = Val (rnd (rnd (?r * 2) - 1))"
    using t repr_int [of 1] round64_Val [of "rnd (?r * 2) - 1" 1] small_bound [of 1] by (simp add: abs_le_iff)
  moreover have "\<bar>rnd (rnd (?r * 2) - 1)\<bar> \<le> 1" using t repr_int [of 1] by (intro rnd_abs_le) (simp_all add: abs_le_iff)
  ultimately show ?thesis using that by (simp add: f_sub_def)
qed

text \<open>The jittered value of a capped back-off \<open>b\<close>, with a bound \<open>w\<close> on the jitter.\<close>

lemma jittered:
  assumes "0 \<le> b" "repr b" "0 \<le> j" "b * j \<le> w" "repr w" "w \<le> b" "repr lo" "repr hi" "lo \<le> b - w" "0 \<le> lo" "b + w \<le> hi"
    and "hi \<le> of_int (2 ^ 54)"
  obtains f where "f_add (Val b) (f_mul (f_mul (Val b) (Val j)) (f_sub (f_mul (rand_Float64 bits) (Val 2)) (Val 1))) = Val f"
    "lo \<le> f" "f \<le> hi"
proof -
  obtain q where q: "f_sub (f_mul (rand_Float64 bits) (Val 2)) (Val 1) = Val q" "\<bar>q\<bar> \<le> 1"
    using random_factor [of bits] .
  have wp: "0 \<le> w" using mult_nonneg_nonneg [OF assms(1,3)] assms(4) by linarith
  have wh: "w < 2 ^ 1024" "hi < 2 ^ 1024"
    using assms(1,6,11,12) wp by (auto intro!: small_bound)
  have bj: "\<bar>b * j\<bar> \<le> w" using assms(1,3,4) by (simp add: abs_mult)
  then have c: "f_mul (Val b) (Val j) = Val (rnd (b * j))" "\<bar>rnd (b * j)\<bar> \<le> w"
    using round64_Val [OF bj assms(5) wh(1)] rnd_abs_le [OF bj assms(5)] by simp_all
  have "\<bar>rnd (b * j) * q\<bar> \<le> w * 1" unfolding abs_mult using c(2) q(2) wp by (intro mult_mono) simp_all
  then have a: "f_mul (Val (rnd (b * j))) (Val q) = Val (rnd (rnd (b * j) * q))" "\<bar>rnd (rnd (b * j) * q)\<bar> \<le> w"
    using round64_Val [OF _ assms(5) wh(1)] rnd_abs_le [OF _ assms(5)] by simp_all
  let ?s = "b + rnd (rnd (b * j) * q)"
  have s: "lo \<le> ?s" "?s \<le> hi" "0 \<le> ?s" using a(2) assms(9,10,11) by linarith+
  then have "round64 ?s = Val (rnd ?s)" using round64_Val [OF _ assms(8) wh(2), of ?s] by simp
  with that [of "rnd ?s"] show thesis
    using c(1) a(1) q(1) rnd_ge [OF assms(10) s(1) assms(7)] rnd_le [OF s(3,2) assms(8)] by simp
qed

lemma f_to_i64_small:
  assumes "0 \<le> f" "f \<le> of_int (2 ^ 54)"
  shows "f_to_i64 impl (Val f) = \<lfloor>f\<rfloor>"
proof -
  have "0 \<le> \<lfloor>f\<rfloor>" "\<lfloor>f\<rfloor> \<le> 2 ^ 54" using assms by (simp, metis floor_mono floor_of_int)
  then have "in_i64 \<lfloor>f\<rfloor>" by (simp add: in_i64_def)
  then show ?thesis using assms(1) by (simp add: trunc_int_def)
qed

lemma CalculateBackoff_floor:
  assumes "(let backoff = f_mul (f_of_int (InitialBackoff c)) (math_Pow (BackoffMultiplier c) (f_int attempt))
      in if f_less (f_of_int (MaxBackoff c)) backoff then f_of_int (MaxBackoff c) else backoff) = Val b"
    and "f_add (Val b) (f_mul (f_mul (Val b) (Jitter c)) (f_sub (f_mul (rand_Float64 bits) (Val 2)) (Val 1))) = Val f"
    and "0 \<le> f" "f \<le> of_int (2 ^ 54)"
  shows "CalculateBackoff impl bits c attempt = \<lfloor>f\<rfloor>"
  using assms(1,2) f_to_i64_small [OF assms(3,4)] assms(3) by (simp add: CalculateBackoff_def Let_def)

subsection \<open>Bounds for every configuration\<close>

lemma pow_loop_nonneg: "0 \<le> a1 \<Longrightarrow> 0 \<le> x1 \<Longrightarrow> 0 \<le> fst (pow_loop i a1 ae x1 xe)"
proof (induction i a1 ae x1 xe rule: pow_loop.induct)
  case (1 i a1 ae x1 xe)
  then show ?case
    by (subst pow_loop.simps) (auto simp: Let_def rnd_nonneg split: if_split)
qed

lemma math_Pow_nonneg: "0 \<le> m \<Longrightarrow> math_Pow (Val m) y = PosInf \<or> (\<exists>p. math_Pow (Val m) y = Val p \<and> 0 \<le> p)"
proof -
  assume m: "0 \<le> m"
  obtain x1 xe where x: "frexp m = (x1, xe)" "0 \<le> x1" using m by (simp add: frexp_def Let_def)
  obtain a1 ae where a: "pow_loop (nat \<bar>y\<bar>) 1 0 x1 xe = (a1, ae)" "0 \<le> a1"
    using pow_loop_nonneg [of 1 x1 "nat \<bar>y\<bar>" 0 xe] x(2) by (cases "pow_loop (nat \<bar>y\<bar>) 1 0 x1 xe") simp
  have "round64 z = PosInf \<or> (\<exists>p. round64 z = Val p \<and> 0 \<le> p)" if "0 \<le> z" for z
    using round64_nonneg [OF that] rnd_nonneg [OF that] by auto
  then show ?thesis using m x a by (auto simp: math_Pow_def rnd_nonneg)
qed

text \<open>The exponential part, capped: a representable value between 0 and the maximum.\<close>

lemma capped_backoff:
  assumes "0 < ini" "ini \<le> 2 ^ 53" "0 \<le> mx" "mx \<le> 2 ^ 53" "0 \<le> m"
  obtains b where "0 \<le> b" "b \<le> of_int mx" "repr b"
    "(let backoff = f_mul (f_of_int ini) (math_Pow (Val m) y)
      in if f_less (f_of_int mx) backoff then f_of_int mx else backoff) = Val b"
proof -
  let ?b = "f_mul (f_of_int ini) (math_Pow (Val m) y)"
  have i: "f_of_int ini = Val (of_int ini)" "f_of_int mx = Val (of_int mx)" using assms by (simp_all add: f_of_int_small)
  have "?b = PosInf \<or> (\<exists>v. ?b = Val (rnd v) \<and> 0 \<le> v)"
  proof (cases "math_Pow (Val m) y = PosInf")
    case True
    then show ?thesis using assms(1) by (simp add: i signed_inf_def)
  next
    case False
    then obtain p where "math_Pow (Val m) y = Val p" "0 \<le> p" using math_Pow_nonneg [OF assms(5)] by blast
    then show ?thesis using round64_nonneg [of "of_int ini * p"] assms(1) by (auto simp: i)
  qed
  then consider (cap) "f_less (f_of_int mx) ?b" | (val) v where "?b = Val (rnd v)" "0 \<le> v" "rnd v \<le> of_int mx"
    unfolding i by fastforce
  then show thesis
  proof cases
    case cap
    then show ?thesis
      using assms(3,4) i(2) repr_int [of mx] by (intro that [of "of_int mx"]) (simp_all add: Let_def)
  next
    case val
    then show ?thesis
      using i(2) rnd_nonneg repr_rnd by (intro that [of "rnd v"]) (simp_all add: Let_def)
  qed
qed

text \<open>
  C34: For every configuration with a positive initial and a non-negative maximal back-off of at most
  2 to the 53 nanoseconds (104 days), a non-negative multiplier and a jitter between 0 and 1, every
  attempt number and every random draw, the back-off is between 0 and twice the maximum; in particular
  the overflow of the power to infinity and the implementation-dependent conversion are never visible.
\<close>

theorem CalculateBackoff_bounds:
  assumes "0 < InitialBackoff c" "InitialBackoff c \<le> 2 ^ 53" "0 \<le> MaxBackoff c" "MaxBackoff c \<le> 2 ^ 53"
    and "BackoffMultiplier c = Val m" "0 \<le> m" "Jitter c = Val j" "0 \<le> j" "j \<le> 1"
  shows "0 \<le> CalculateBackoff impl bits c attempt \<and> CalculateBackoff impl bits c attempt \<le> 2 * MaxBackoff c"
proof -
  obtain b where b: "0 \<le> b" "b \<le> of_int (MaxBackoff c)" "repr b"
    "(let backoff = f_mul (f_of_int (InitialBackoff c)) (math_Pow (Val m) (f_int attempt))
      in if f_less (f_of_int (MaxBackoff c)) backoff then f_of_int (MaxBackoff c) else backoff) = Val b"
    using capped_backoff [OF assms(1-4,6)] .
  have mx: "\<bar>MaxBackoff c\<bar> \<le> 2 ^ 53" "2 * of_int (MaxBackoff c) \<le> (of_int (2 ^ 54) :: rat)" using assms(3,4) by simp_all
  have "b * j \<le> b" using b(1) assms(8,9) mult_left_le [of j b] by simp
  then obtain f where f: "f_add (Val b) (f_mul (f_mul (Val b) (Val j)) (f_sub (f_mul (rand_Float64 bits) (Val 2)) (Val 1))) = Val f"
    "0 \<le> f" "f \<le> 2 * of_int (MaxBackoff c)"
    using jittered [of b j b 0 "2 * of_int (MaxBackoff c)" bits] b(1-3) assms(8) repr_int [of 0] repr_twice_int [OF mx(1)] mx(2) by auto
  then have "CalculateBackoff impl bits c attempt = \<lfloor>f\<rfloor>"
    using b(4) mx(2) by (intro CalculateBackoff_floor [of c attempt b]) (simp_all add: assms(5,7))
  moreover have "\<lfloor>f\<rfloor> \<le> 2 * MaxBackoff c" using f(3) floor_mono [OF f(3)] by (metis floor_of_int of_int_mult of_int_numeral)
  ultimately show ?thesis using f(2) by simp
qed

theorem CalculateBackoff_bounds_witness:
  "0 \<le> CalculateBackoff (\<lambda>_. 0) 7 \<lparr>InitialBackoff = 10, MaxBackoff = 100, BackoffMultiplier = Val 3, Jitter = Val (1/2)\<rparr> 4000 \<and>
   CalculateBackoff (\<lambda>_. 0) 7 \<lparr>InitialBackoff = 10, MaxBackoff = 100, BackoffMultiplier = Val 3, Jitter = Val (1/2)\<rparr> 4000 \<le> 200"
  using CalculateBackoff_bounds [of "\<lparr>InitialBackoff = 10, MaxBackoff = 100, BackoffMultiplier = Val 3, Jitter = Val (1/2)\<rparr>"
      3 "1/2" "\<lambda>_. 0" 7 4000] by simp

subsection \<open>The default configuration\<close>

lemma repr_power: "- 1074 \<le> k \<Longrightarrow> repr (2 powi k)"
  unfolding repr_def by (rule exI [of _ 1], rule exI [of _ k]) simp

text \<open>
  On a power of two the loop of \<open>math.Pow\<close> is exact, unless it breaks off with an exponent far beyond
  the range.
\<close>

lemma pow_loop_two:
  assumes "i < 2 ^ n" "k + int n \<le> 1074" "1 \<le> xe"
  shows "\<exists>a e. pow_loop i (2 powi (- k)) ae (1/2) xe = (a, e) \<and>
    (a * 2 powi e = 2 powi (ae - k + (xe - 1) * int i) \<or>
     2 powi (ae - k + 4096) \<le> a * 2 powi e \<and> 4096 \<le> (xe - 1) * int i)"
  using assms
proof (induction n arbitrary: i k ae xe)
  case 0
  then show ?case by (subst pow_loop.simps) (simp add: powi_add_rat [symmetric])
next
  case (Suc n)
  consider "i = 0" | "i \<noteq> 0" "4096 < xe" | "i \<noteq> 0" "xe \<le> 4096" by linarith
  then show ?case
  proof cases
    case 1
    then show ?thesis by (subst pow_loop.simps) (simp add: powi_add_rat [symmetric])
  next
    case 2
    then have "(2::rat) powi (ae - k + 4096) \<le> 2 powi (- k + (ae + xe))" by (intro powi_mono) simp
    moreover have "(2::rat) powi (- k + (ae + xe)) = 2 powi (- k) * 2 powi (ae + xe)" by (rule powi_add_rat)
    ultimately have "(2::rat) powi (ae - k + 4096) \<le> 2 powi (- k) * 2 powi (ae + xe)" by (simp only:)
    moreover have "pow_loop i (2 powi (- k)) ae (1/2) xe = (2 powi (- k), ae + xe)" using 2 by (subst pow_loop.simps) simp
    moreover have "4096 * 1 \<le> (xe - 1) * int i" using 2 by (intro mult_mono) simp_all
    ultimately show ?thesis by auto
  next
    case 3
    let ?k = "if odd i then k + 1 else k" and ?ae = "if odd i then ae + xe else ae"
    have q: "rnd (1/4) = 1/4" using rnd_exact [OF repr_power [of "- 2"]] by (simp add: power_int_minus)
    have "(2::rat) powi (- k) * (1/2) = 2 powi (- (k + 1))" using powi_add_rat [of "- k" "- 1"] by (simp add: power_int_minus)
    then have r: "rnd (2 powi (- k) * (1/2)) = 2 powi (- (k + 1))"
      using rnd_exact [OF repr_power [of "- (k + 1)"]] Suc.prems(2) by (simp only:)
    have st: "pow_loop i (2 powi (- k)) ae (1/2) xe = pow_loop (i div 2) (2 powi (- ?k)) ?ae (1/2) (2 * xe - 1)"
      using 3 Suc.prems(3) r by (subst pow_loop.simps) (simp add: Let_def q)
    have "i div 2 < 2 ^ n" "?k + int n \<le> 1074" "1 \<le> 2 * xe - 1" using Suc.prems by auto
    from Suc.IH [OF this, of ?ae] obtain a e where ae: "pow_loop (i div 2) (2 powi (- ?k)) ?ae (1/2) (2 * xe - 1) = (a, e)"
      "a * 2 powi e = 2 powi (?ae - ?k + (2 * xe - 1 - 1) * int (i div 2)) \<or>
       2 powi (?ae - ?k + 4096) \<le> a * 2 powi e \<and> 4096 \<le> (2 * xe - 1 - 1) * int (i div 2)"
      by blast
    have "?ae - ?k + (2 * xe - 1 - 1) * int (i div 2) = ae - k + (xe - 1) * int i" "(2 * xe - 1 - 1) * int (i div 2) \<le> (xe - 1) * int i"
    proof -
      have "int i = 2 * int (i div 2) + (if odd i then 1 else 0)" by (simp add: odd_two_times_div_two_succ) presburger
      then have "(xe - 1) * int i = 2 * (xe - 1) * int (i div 2) + (if odd i then xe - 1 else 0)" by (auto simp: algebra_simps)
      then show "?ae - ?k + (2 * xe - 1 - 1) * int (i div 2) = ae - k + (xe - 1) * int i" "(2 * xe - 1 - 1) * int (i div 2) \<le> (xe - 1) * int i"
        using Suc.prems(3) by (auto simp: algebra_simps)
    qed
    moreover have "(2::rat) powi (ae - k + 4096) \<le> 2 powi (?ae - ?k + 4096)" using Suc.prems(3) by (intro powi_mono) auto
    ultimately show ?thesis unfolding st using ae by (intro exI [of _ a] exI [of _ e]) (auto simp del: of_nat_div)
  qed
qed

lemma frexp_two: "frexp 2 = (1/2, 2)"
proof -
  have "ilog2 2 = 1" "ilog2 1 = 0" by (simp_all add: ilog2.simps)
  moreover have "quotient_of 2 = (2, 1)" by (simp add: quotient_of_number)
  ultimately have "expo 2 = 1" by (simp add: expo_def Let_def)
  then show ?thesis by (simp add: frexp_def Let_def)
qed

lemma math_Pow_two:
  assumes "0 \<le> y"
  shows "math_Pow (Val 2) y = PosInf \<and> 1024 \<le> y \<or> math_Pow (Val 2) y = Val (2 powi y)"
proof -
  have inf: "round64 z = PosInf" if "(2::rat) powi 1024 \<le> z" for z
  proof -
    have "2 powi 1024 \<le> rnd z" using rnd_ge [OF _ that repr_power] by simp
    then show ?thesis by (simp only: round64_def Let_def power_int_numeral if_True)
  qed
  have fin: "round64 (2 powi y) = Val (2 powi y)" if "y < 1024"
  proof -
    have "(2::rat) powi y < 2 powi 1024" using that by (intro power_int_strict_increasing) simp_all
    then show ?thesis
      using round64_Val [of "2 powi y" "2 powi y"] repr_power [of y] rnd_exact [of "2 powi y"] assms by (simp only: power_int_numeral) simp
  qed
  consider "y = 0" | "y = 1" | "2 ^ 63 \<le> y" | "1 < y" "y < 2 ^ 63" using assms by linarith
  then show ?thesis
  proof cases
    case 4
    then have "nat y < 2 ^ 63" by (simp add: nat_less_iff)
    then obtain a e where ae: "pow_loop (nat y) 1 0 (1/2) 2 = (a, e)"
      "a * 2 powi e = 2 powi y \<or> 2 powi 4096 \<le> a * 2 powi e \<and> 4096 \<le> y"
      using pow_loop_two [of "nat y" 63 0 2 0] 4(1) by auto
    have m: "math_Pow (Val 2) y = round64 (a * 2 powi e)" using 4 ae(1) by (simp add: math_Pow_def frexp_two)
    have "(2::rat) powi 1024 \<le> 2 powi 4096" "1024 \<le> y \<Longrightarrow> (2::rat) powi 1024 \<le> 2 powi y" by (intro powi_mono; simp)+
    then have "2 powi 1024 \<le> a * 2 powi e" if "1024 \<le> y" using that ae(2) order_trans by metis
    moreover have "a * 2 powi e = 2 powi y" if "y < 1024" using that ae(2) by linarith
    ultimately show ?thesis using inf [of "a * 2 powi e"] fin m by (metis not_less)
  qed (simp_all add: math_Pow_def)
qed

definition default_base :: "int \<Rightarrow> int" where
  "default_base attempt = min (50 * Millisecond * 2 ^ nat attempt) (5 * Second)"

lemma default_base_bounds: "0 \<le> default_base a" "default_base a \<le> 5000000000" "default_base a = 10 * (default_base a div 10)"
  by (auto simp: default_base_def min_def)

text \<open>From the seventh doubling on the cap applies.\<close>

lemma default_base_large: "7 \<le> a \<Longrightarrow> default_base a = 5000000000"
proof -
  assume "7 \<le> a"
  then have "(2::int) ^ 7 \<le> 2 ^ nat a" by (intro power_increasing) simp_all
  then show ?thesis by (simp add: default_base_def)
qed

lemma default_capped:
  assumes "0 \<le> y"
  shows "(let backoff = f_mul (f_of_int (50 * Millisecond)) (math_Pow (Val 2) y)
     in if f_less (f_of_int (5 * Second)) backoff then f_of_int (5 * Second) else backoff) = Val (of_int (default_base y))"
proof -
  have i: "f_of_int 50000000 = Val 50000000" "f_of_int 5000000000 = Val 5000000000"
    using f_of_int_small [of "50 * Millisecond"] f_of_int_small [of "5 * Second"] by simp_all
  show ?thesis
  proof (cases "7 \<le> y")
    case True
    have "f_mul (Val 50000000) (math_Pow (Val 2) y) = PosInf \<or> (\<exists>b. f_mul (Val 50000000) (math_Pow (Val 2) y) = Val b \<and> 6400000000 \<le> b)"
    proof (cases "math_Pow (Val 2) y = PosInf")
      case False
      have "(2::rat) powi 7 \<le> 2 powi y" using True by (rule powi_mono)
      then have "6400000000 \<le> rnd (50000000 * 2 powi y)" using repr_int [of 6400000000] by (intro rnd_ge) simp_all
      then show ?thesis using math_Pow_two [OF assms] False round64_nonneg [of "50000000 * 2 powi y"] by auto
    qed (simp add: signed_inf_def)
    then show ?thesis using default_base_large [OF True] by (auto simp: i Let_def)
  next
    case False
    then have p: "math_Pow (Val 2) y = Val (2 powi y)" using math_Pow_two [OF assms] by simp
    have y: "y = int (nat y)" "nat y < 7" using assms False by simp_all
    have "(2::int) ^ nat y \<le> 2 ^ 6" using y(2) by (intro power_increasing) simp_all
    then have n: "\<bar>50000000 * 2 ^ nat y\<bar> \<le> (2 ^ 53 :: int)" by simp
    have "round64 (50000000 * 2 powi y) = Val (of_int (50000000 * 2 ^ nat y))"
      using f_of_int_small [OF n] powi_nonneg_int [OF assms] by (simp add: f_of_int_def)
    then show ?thesis by (simp add: i p Let_def default_base_def min_def) (metis of_int_le_iff of_int_mult of_int_numeral of_int_power not_less)
  qed
qed

lemma f_int_default: "0 \<le> a \<Longrightarrow> 0 \<le> f_int a \<and> default_base (f_int a) = default_base a"
proof (cases "a \<le> 2 ^ 53")
  case True
  assume "0 \<le> a"
  then show ?thesis using True rnd_exact [OF repr_int, of a] by (simp add: f_int_def trunc_int_def)
next
  case False
  then have "of_int (2 ^ 53) \<le> rnd (of_int a)" by (intro rnd_ge repr_int) simp_all
  then have "2 ^ 53 \<le> f_int a" by (simp add: f_int_def trunc_int_def le_floor_iff)
  then show ?thesis using False default_base_large by simp
qed

lemma jitter_tenth: "Jitter DefaultBackoffConfig = Val (rnd (1/10))" "0 \<le> rnd (1/10)" "rnd (1/10) \<le> 1/10 + 1 / 2 ^ 53"
proof -
  have "(2::rat) powi (- 1022) \<le> 2 powi (- 4)" by (rule powi_mono) simp
  then have "\<bar>rnd (1/10) - 1/10\<bar> \<le> \<bar>1/10\<bar> / 2 ^ 53" by (intro rnd_error) (simp add: power_int_minus)
  then show "rnd (1/10) \<le> 1/10 + 1 / 2 ^ 53" by linarith
  show "0 \<le> rnd (1/10)" by (rule rnd_nonneg) simp
  show "Jitter DefaultBackoffConfig = Val (rnd (1/10))"
    using round64_Val [of "1/10" 1] repr_int [of 1] small_bound [of 1] by (simp add: DefaultBackoffConfig_def)
qed

lemma CalculateBackoff_near:
  assumes "0 \<le> attempt"
  shows "\<bar>10 * (CalculateBackoff impl bits DefaultBackoffConfig attempt - default_base attempt)\<bar> \<le> default_base attempt + 10"
proof -
  let ?b = "default_base attempt" and ?j = "rnd (1/10)"
  let ?w = "?b div 10 + 1"
  note b = default_base_bounds [of attempt]
  have fi: "0 \<le> f_int attempt" "default_base (f_int attempt) = ?b" using f_int_default [OF assms] by simp_all
  have cap: "(let backoff = f_mul (f_of_int (50 * Millisecond)) (math_Pow (Val 2) (f_int attempt))
     in if f_less (f_of_int (5 * Second)) backoff then f_of_int (5 * Second) else backoff) = Val (of_int ?b)"
    using default_capped [OF fi(1)] unfolding fi(2) .
  have pos: "10 \<le> ?b" 
  proof -
    have "(1::int) \<le> 2 ^ nat attempt" by simp
    then have "10 \<le> 50 * Millisecond * 2 ^ nat attempt" by linarith
    then show ?thesis by (simp add: default_base_def)
  qed
  have "of_int ?b * ?j \<le> of_int ?b * (1/10 + 1 / 2 ^ 53)" using jitter_tenth(3) b(1) by (intro mult_left_mono) simp_all
  also have "\<dots> \<le> of_int ?b / 10 + 1"
  proof -
    have "(of_int ?b :: rat) \<le> 5000000000" using b(2) by simp
    then show ?thesis by (simp add: distrib_left)
  qed
  also have "of_int ?b / 10 + 1 = (of_int ?w :: rat)"
    using arg_cong [OF b(3), of "of_int :: int \<Rightarrow> rat"] by simp
  finally have w: "of_int ?b * ?j \<le> of_int ?w" .
  have r: "repr (of_int ?b)" "repr (of_int ?w)" "repr (of_int (?b - ?w))" "repr (of_int (?b + ?w))"
    using b(1,2) pos by (intro repr_int; simp)+
  obtain f where f: "f_add (Val (of_int ?b)) (f_mul (f_mul (Val (of_int ?b)) (Val ?j)) (f_sub (f_mul (rand_Float64 bits) (Val 2)) (Val 1))) = Val f"
    "of_int (?b - ?w) \<le> f" "f \<le> of_int (?b + ?w)"
    using jittered [OF _ r(1) jitter_tenth(2) w r(2) _ r(3,4), of bits] b pos by auto
  have f0: "0 \<le> f" "f \<le> of_int (2 ^ 54)"
    using f(2,3) b(1,2) pos order_trans [of 0 "of_int (?b - ?w)" f] order_trans [of f "of_int (?b + ?w)" "of_int (2 ^ 54)"] by simp_all
  have "CalculateBackoff impl bits DefaultBackoffConfig attempt = \<lfloor>f\<rfloor>"
    using cap f(1) jitter_tenth(1)
    by (intro CalculateBackoff_floor [OF _ _ f0, of _ _ "of_int ?b"]) (simp_all add: DefaultBackoffConfig_def Let_def split: if_splits)
  moreover have "?b - ?w \<le> \<lfloor>f\<rfloor>" "\<lfloor>f\<rfloor> \<le> ?b + ?w" using f(2,3) by (simp_all add: le_floor_iff floor_le_iff)
  moreover have "\<bar>10 * (r - x)\<bar> \<le> x + 10" if "x - (d + 1) \<le> r" "r \<le> x + (d + 1)" "x = 10 * d" for x d r :: int
    using that by presburger
  ultimately show ?thesis using b(3) by metis
qed

text \<open>
  With the default configuration the back-off of every attempt is within a tenth, up to one
  nanosecond, of the smaller of five seconds and fifty milliseconds doubled per attempt.
\<close>

theorem CalculateBackoff_default:
  assumes "0 \<le> attempt"
  shows "\<bar>10 * (CalculateBackoff impl bits DefaultBackoffConfig attempt - min (50 * Millisecond * 2 ^ nat attempt) (5 * Second))\<bar>
     \<le> min (50 * Millisecond * 2 ^ nat attempt) (5 * Second) + 10"
  using CalculateBackoff_near [OF assms] by (simp add: default_base_def)

theorem CalculateBackoff_default_witness:
  "\<bar>10 * (CalculateBackoff (\<lambda>_. 0) 5 DefaultBackoffConfig 2 - 200000000)\<bar> \<le> 200000010"
  using CalculateBackoff_default [of 2 "\<lambda>_. 0" 5] by simp

end
