(* ===== verification/Retry.thy ===== *)
theory Retry
  imports Leader_Errors Backoff
begin

text \<open>
  \<open>leader/retry.go\<close>: the circuit breaker and \<open>RetryWithBackoff\<close>. The function that is retried works
  on a state \<open>'s\<close> of its own; the clock, the context and the sleep between two attempts are read off
  the same state, so anything may happen while the loop waits; so are the random bits that
  \<open>CalculateBackoff\<close> draws. A run of the function returns an error or none, or it panics.
\<close>

subsection \<open>The circuit breaker\<close>

datatype CircuitState = CircuitStateClosed | CircuitStateOpen | CircuitStateHalfOpen

record CircuitBreaker =
  failureThreshold :: int
  cooldownPeriod :: duration
  cb_state :: CircuitState
  failures :: int
  lastFailureTime :: "int option"

definition NewCircuitBreaker :: "int \<Rightarrow> duration \<Rightarrow> CircuitBreaker" where
  "NewCircuitBreaker threshold cooldown =
     \<lparr>failureThreshold = threshold, cooldownPeriod = cooldown, cb_state = CircuitStateClosed, failures = 0,
      lastFailureTime = None\<rparr>"

text \<open>\<open>time.Since\<close> of the zero time saturates.\<close>

definition time_Since :: "int \<Rightarrow> int option \<Rightarrow> duration" where
  "time_Since now t = (case t of None \<Rightarrow> 2 ^ 63 - 1 | Some t \<Rightarrow> time_Sub now t)"

definition circuit_open :: error where
  "circuit_open = ErrorString ''circuit breaker is open''"

datatype run = Returned "error option" | Panics string

text \<open>
  \<open>Call\<close> holds the breaker's lock while the function runs; the lock is released by a deferred call, also
  when the function panics, but what the breaker recorded before stays as it is.
\<close>

definition Call :: "('s \<Rightarrow> int) \<Rightarrow> ('s \<Rightarrow> run \<times> 's) \<Rightarrow> CircuitBreaker \<Rightarrow> 's \<Rightarrow> run \<times> CircuitBreaker \<times> 's" where
  "Call clock fn cb0 s =
     (if cb_state cb0 = CircuitStateOpen \<and> time_Since (clock s) (lastFailureTime cb0) < cooldownPeriod cb0
      then (Returned (Some circuit_open), cb0, s)
      else
        (let cb = (if cb_state cb0 = CircuitStateOpen then cb0\<lparr>cb_state := CircuitStateHalfOpen\<rparr> else cb0)
         in case fn s of
              (Panics v, s') \<Rightarrow> (Panics v, cb, s')
            | (Returned (Some er), s') \<Rightarrow>
                (let cb = cb\<lparr>failures := i64 (failures cb + 1), lastFailureTime := Some (clock s')\<rparr>;
                     cb = (if failureThreshold cb \<le> failures cb then cb\<lparr>cb_state := CircuitStateOpen\<rparr> else cb)
                 in (Returned (Some er), cb, s'))
            | (Returned None, s') \<Rightarrow> (Returned None, cb\<lparr>failures := 0, cb_state := CircuitStateClosed\<rparr>, s')))"

subsection \<open>Retrying\<close>

record RetryConfig =
  MaxAttempts :: int
  rc_BackoffConfig :: BackoffConfig
  rc_CircuitBreaker :: "CircuitBreaker option"

text \<open>One attempt: through the breaker if there is one. The flag tells that the breaker refused, by the text of the error.\<close>

definition try_once :: "('s \<Rightarrow> int) \<Rightarrow> ('s \<Rightarrow> run \<times> 's) \<Rightarrow> CircuitBreaker option \<Rightarrow> 's
    \<Rightarrow> (run \<times> bool) \<times> CircuitBreaker option \<times> 's" where
  "try_once clock fn cb s =
     (case cb of
        Some b \<Rightarrow>
          (let (r, b', s') = Call clock fn b s
           in ((r, (case r of Returned (Some er) \<Rightarrow> Error er = ''circuit breaker is open'' | _ \<Rightarrow> False)), Some b', s'))
      | None \<Rightarrow> (let (r, s') = fn s in ((r, False), None, s')))"

definition max_attempts_exceeded :: "int \<Rightarrow> error \<Rightarrow> error" where
  "max_attempts_exceeded n err = WrapError (''max attempts ('' @ Itoa n @ '') exceeded'') err"

text \<open>
  \<open>ctxErr\<close> is \<open>ctx.Err()\<close>; \<open>sleep d\<close> is the \<open>select\<close> with a timer of length \<open>d\<close>: it tells whether the context
  ended it. \<open>bits\<close> and \<open>impl\<close> are the arguments of \<open>CalculateBackoff\<close>. With no bound on the attempts the
  loop may run for ever: then the result is \<open>None\<close>.
\<close>

partial_function (option) retry_from :: "('s \<Rightarrow> error option) \<Rightarrow> ('s \<Rightarrow> int) \<Rightarrow> (float64 \<Rightarrow> int) \<Rightarrow> ('s \<Rightarrow> nat)
    \<Rightarrow> (duration \<Rightarrow> 's \<Rightarrow> bool \<times> 's) \<Rightarrow> RetryConfig \<Rightarrow> ('s \<Rightarrow> run \<times> 's) \<Rightarrow> int \<Rightarrow> CircuitBreaker option \<Rightarrow> 's
    \<Rightarrow> (run \<times> CircuitBreaker option \<times> 's) option" where
  "retry_from ctxErr clock impl bits sleep rc fn attempt cb s =
     (if ctxErr s \<noteq> None then Some (Returned (ctxErr s), cb, s)
      else
        (case try_once clock fn cb s of
           ((Panics v, _), cb', s') \<Rightarrow> Some (Panics v, cb', s')
         | ((Returned None, _), cb', s') \<Rightarrow> Some (Returned None, cb', s')
         | ((Returned (Some err), refused), cb', s') \<Rightarrow>
             if refused then Some (Returned (Some err), cb', s')
             else if IsPermanentError (Some err) then Some (Returned (Some err), cb', s')
             else if MaxAttempts rc > 0 \<and> attempt \<ge> MaxAttempts rc - 1
             then Some (Returned (Some (max_attempts_exceeded (MaxAttempts rc) err)), cb', s')
             else
               (case sleep (CalculateBackoff impl (bits s') (rc_BackoffConfig rc) attempt) s' of
                  (ended, s2) \<Rightarrow>
                    if ended then Some (Returned (ctxErr s2), cb', s2)
                    else retry_from ctxErr clock impl bits sleep rc fn (i64 (attempt + 1)) cb' s2)))"

definition RetryWithBackoff :: "('s \<Rightarrow> error option) \<Rightarrow> ('s \<Rightarrow> int) \<Rightarrow> (float64 \<Rightarrow> int) \<Rightarrow> ('s \<Rightarrow> nat)
    \<Rightarrow> (duration \<Rightarrow> 's \<Rightarrow> bool \<times> 's) \<Rightarrow> RetryConfig \<Rightarrow> ('s \<Rightarrow> run \<times> 's) \<Rightarrow> 's
    \<Rightarrow> (run \<times> CircuitBreaker option \<times> 's) option" where
  "RetryWithBackoff ctxErr clock impl bits sleep rc fn s =
     retry_from ctxErr clock impl bits sleep rc fn 0 (rc_CircuitBreaker rc) s"

subsection \<open>What was really run\<close>

text \<open>
  The statements below speak about the runs of the function that really happened: \<open>runs s\<close> reads them off
  the state the function works on, oldest first. That a function records its runs is a law of the state,
  not of the code: any function can be observed in this way, for instance through a list beside its state.
\<close>

definition records :: "('s \<Rightarrow> run list) \<Rightarrow> ('s \<Rightarrow> run \<times> 's) \<Rightarrow> bool" where
  "records runs fn \<longleftrightarrow> (\<forall>s. runs (snd (fn s)) = runs s @ [fst (fn s)])"

lemma recordsD: "records runs fn \<Longrightarrow> fn s = (r, s') \<Longrightarrow> runs s' = runs s @ [r]"
  by (metis records_def fst_conv snd_conv)

definition failed :: "run \<Rightarrow> bool" where
  "failed r \<longleftrightarrow> (\<exists>e. r = Returned (Some e))"

definition panicked :: "run \<Rightarrow> bool" where
  "panicked r \<longleftrightarrow> (\<exists>v. r = Panics v)"

lemma run_cases [simp]:
  "failed (Returned (Some e))" "\<not> failed (Returned None)" "\<not> failed (Panics v)"
  "\<not> panicked (Returned x)" "panicked (Panics v)"
  by (simp_all add: failed_def panicked_def)

text \<open>The failures in a row: those after the last success. A panic neither counts nor interrupts the row.\<close>

definition streak :: "run list \<Rightarrow> nat" where
  "streak h = length (filter failed (takeWhile (\<lambda>r. r \<noteq> Returned None) (rev h)))"

lemma streak_simps [simp]:
  "streak [] = 0"
  "streak (h @ [Returned None]) = 0"
  "streak (h @ [Returned (Some e)]) = Suc (streak h)"
  "streak (h @ [Panics v]) = streak h"
  by (simp_all add: streak_def)

subsection \<open>The breaker's invariant\<close>

text \<open>
  The breaker's fields as a function of the runs \<open>h\<close> it let through: it counts the failures in a row,
  it is closed while they are none or fewer than the threshold, and otherwise open, or half open when the
  last run panicked.
\<close>

definition cb_inv :: "int \<Rightarrow> duration \<Rightarrow> run list \<Rightarrow> CircuitBreaker \<Rightarrow> bool" where
  "cb_inv t c h cb \<longleftrightarrow> failureThreshold cb = t \<and> cooldownPeriod cb = c \<and> failures cb = int (streak h) \<and>
     cb_state cb = (if streak h = 0 \<or> int (streak h) < t then CircuitStateClosed
                    else if panicked (last h) then CircuitStateHalfOpen else CircuitStateOpen)"

lemma cb_inv_new: "cb_inv t c [] (NewCircuitBreaker t c)"
  by (simp add: cb_inv_def NewCircuitBreaker_def)

lemma Call_keeps_inv:
  assumes "cb_inv t c (runs s) cb" "int (streak (runs s)) < 2 ^ 63 - 1" "records runs fn"
    and "Call clock fn cb s = (r, cb', s')"
  shows "cb_inv t c (runs s') cb' \<and> streak (runs s') \<le> streak (runs s) + 1"
proof -
  have "i64 (failures cb + 1) = failures cb + 1"
    using assms(1,2) by (intro i64_id) (auto simp: cb_inv_def in_i64_def)
  moreover obtain r1 s1 where f: "fn s = (r1, s1)" by (cases "fn s")
  moreover have "runs s1 = runs s @ [r1]" using recordsD [OF assms(3) f] .
  moreover have "r1 = Returned None \<or> (\<exists>e. r1 = Returned (Some e)) \<or> (\<exists>v. r1 = Panics v)"
    by (metis option.exhaust run.exhaust)
  ultimately show ?thesis
    using assms(1,4) by (auto simp: cb_inv_def Call_def Let_def split: if_splits)
qed

text \<open>A sequence of calls, each with its own function.\<close>

fun calls :: "('s \<Rightarrow> int) \<Rightarrow> ('s \<Rightarrow> run \<times> 's) list \<Rightarrow> CircuitBreaker \<Rightarrow> 's \<Rightarrow> CircuitBreaker \<times> 's" where
  "calls clock [] cb s = (cb, s)"
| "calls clock (f # fs) cb s = (let (r, cb', s') = Call clock f cb s in calls clock fs cb' s')"

lemma calls_inv:
  assumes "cb_inv t c (runs s) cb" "int (streak (runs s)) + int (length fs) < 2 ^ 63" "\<forall>f \<in> set fs. records runs f"
    and "calls clock fs cb s = (cb', s')"
  shows "cb_inv t c (runs s') cb'"
  using assms
proof (induction fs arbitrary: cb s)
  case (Cons f fs)
  obtain r cb1 s1 where c: "Call clock f cb s = (r, cb1, s1)" by (cases "Call clock f cb s") auto
  have "cb_inv t c (runs s1) cb1 \<and> streak (runs s1) \<le> streak (runs s) + 1"
    using Call_keeps_inv [where runs = runs, OF Cons.prems(1) _ _ c] Cons.prems(2,3) by auto
  with Cons.IH [of s1 cb1] Cons.prems c show ?case by auto
qed simp

lemma Call_runs_iff:
  assumes "records runs fn" "Call clock fn cb s = (r, cb', s')"
  shows "runs s' = (if cb_state cb = CircuitStateOpen \<and> time_Since (clock s) (lastFailureTime cb) < cooldownPeriod cb
    then runs s else runs s @ [fst (fn s)])"
  using assms recordsD [OF assms(1)]
  by (cases "fn s") (auto simp: Call_def Let_def split: if_splits run.splits option.splits)

text \<open>
  C27: After any fewer than 2 to the 63 calls of a new breaker its counter is the number of failures in
  a row of the functions it really ran, counted since the last success. It is closed exactly when these
  are none or fewer than the threshold; otherwise it is open, except that a function that panics in the
  trial after a cooldown leaves it half open. The next call is refused, its function not run, exactly
  when the breaker is open in this sense and the cooldown since the last recorded failure has not passed.
\<close>

theorem breaker_invariant:
  assumes "int (length fs) < 2 ^ 63" "\<forall>f \<in> set fs. records runs f" "runs s = []"
    and "calls clock fs (NewCircuitBreaker t c) s = (cb, s')"
    and "records runs f" "Call clock f cb s' = (r, cb2, s2)"
  shows "failures cb = int (streak (runs s')) \<and>
    (cb_state cb = CircuitStateClosed \<longleftrightarrow> streak (runs s') = 0 \<or> int (streak (runs s')) < t) \<and>
    (cb_state cb = CircuitStateHalfOpen \<longleftrightarrow> 0 < streak (runs s') \<and> t \<le> int (streak (runs s')) \<and> panicked (last (runs s'))) \<and>
    runs s2 = (if 0 < streak (runs s') \<and> t \<le> int (streak (runs s')) \<and> \<not> panicked (last (runs s')) \<and>
                  time_Since (clock s') (lastFailureTime cb) < c
               then runs s' else runs s' @ [fst (f s')])"
proof -
  have "cb_inv t c (runs s') cb"
    using calls_inv [where runs = runs, OF _ _ assms(2,4), of t c] cb_inv_new assms(1,3) by simp
  then show ?thesis
    using Call_runs_iff [OF assms(5,6)] by (auto simp: cb_inv_def split: if_splits)
qed

text \<open>A function that fails while its clock is before 7 and then panics, at one tick a run.\<close>

definition sick :: "int \<times> run list \<Rightarrow> run \<times> int \<times> run list" where
  "sick = (\<lambda>(now, h). let r = (if now < 7 then Returned (Some Canceled) else Panics ''nil map'') in (r, now + 1, h @ [r]))"

lemma sick_records: "records snd sick"
  by (simp add: records_def sick_def Let_def split: prod.splits)

theorem breaker_invariant_witness:
  "failures (fst (calls fst (replicate 3 sick) (NewCircuitBreaker 2 5) (0, []))) = 2 \<and>
   cb_state (fst (calls fst (replicate 3 sick) (NewCircuitBreaker 2 5) (0, []))) = CircuitStateOpen"
proof -
  define cb s' where "cb = fst (calls fst (replicate 3 sick) (NewCircuitBreaker 2 5) (0, []))"
    and "s' = snd (calls fst (replicate 3 sick) (NewCircuitBreaker 2 5) (0, []))"
  obtain r cb2 s2 where "Call fst sick cb s' = (r, cb2, s2)" by (cases "Call fst sick cb s'") auto
  then have *: "failures cb = int (streak (snd s')) \<and>
    (cb_state cb = CircuitStateClosed \<longleftrightarrow> streak (snd s') = 0 \<or> int (streak (snd s')) < 2) \<and>
    (cb_state cb = CircuitStateHalfOpen \<longleftrightarrow> 0 < streak (snd s') \<and> 2 \<le> int (streak (snd s')) \<and> panicked (last (snd s')))"
    using breaker_invariant [of "replicate 3 sick" snd "(0, [])" fst 2 5 cb s' sick r cb2 s2] sick_records
    unfolding cb_def s'_def by (simp del: replicate.simps)
  have "snd s' = [Returned (Some Canceled), Returned (Some Canceled)]"
    unfolding s'_def by code_simp
  with * have "failures cb = 2 \<and> cb_state cb \<noteq> CircuitStateClosed \<and> cb_state cb \<noteq> CircuitStateHalfOpen"
    by (simp add: streak_def)
  then show ?thesis unfolding cb_def by (metis CircuitState.exhaust)
qed

text \<open>
  After the cooldown of an open breaker the function is run: a success closes the breaker and forgets the
  failures, a failure opens it again for a full cooldown counted from that failure, and a panic leaves it
  half open, so that the next call runs its function at once.
\<close>

theorem breaker_trial:
  assumes "cb_inv t c h cb" "cb_state cb = CircuitStateOpen" "failures cb < 2 ^ 63 - 1" "fn s = (r, s')"
    and "c \<le> time_Since (clock s) (lastFailureTime cb)"
  shows "\<exists>cb'. Call clock fn cb s = (r, cb', s') \<and>
      (r = Returned None \<longrightarrow> cb_state cb' = CircuitStateClosed \<and> failures cb' = 0) \<and>
      (failed r \<longrightarrow> cb_state cb' = CircuitStateOpen \<and> lastFailureTime cb' = Some (clock s') \<and> failures cb' = failures cb + 1) \<and>
      (panicked r \<longrightarrow> cb' = cb\<lparr>cb_state := CircuitStateHalfOpen\<rparr>)"
proof -
  have "i64 (failures cb + 1) = failures cb + 1"
    using assms(1,3) by (intro i64_id) (auto simp: cb_inv_def in_i64_def)
  with assms show ?thesis
    by (auto simp: Call_def cb_inv_def Let_def failed_def panicked_def split: run.split option.split if_splits)
qed

subsection \<open>The retry loop\<close>

definition transient :: "run \<Rightarrow> bool" where
  "transient r \<longleftrightarrow> (\<exists>e. r = Returned (Some e) \<and> \<not> IsPermanentError (Some e))"

lemma transient_simps [simp]:
  "transient (Returned (Some e)) \<longleftrightarrow> \<not> IsPermanentError (Some e)" "\<not> transient (Returned None)" "\<not> transient (Panics v)"
  by (simp_all add: transient_def)

text \<open>The breaker refuses to run anything now.\<close>

definition refusing :: "('s \<Rightarrow> int) \<Rightarrow> CircuitBreaker option \<Rightarrow> 's \<Rightarrow> bool" where
  "refusing clock cb s \<longleftrightarrow> (\<exists>b. cb = Some b \<and> cb_state b = CircuitStateOpen \<and>
     time_Since (clock s) (lastFailureTime b) < cooldownPeriod b)"

text \<open>
  How the loop ended, from the runs \<open>h\<close> it made, its result \<open>r\<close> and the breaker and state it left: the
  context had ended or the breaker refused after runs that all failed for a while only, or the last run
  decided: it panicked, succeeded, failed for good, spoke like the breaker, or was the last one allowed.
\<close>

definition retry_end :: "('s \<Rightarrow> error option) \<Rightarrow> ('s \<Rightarrow> int) \<Rightarrow> int \<Rightarrow> run list \<Rightarrow> run \<Rightarrow> CircuitBreaker option \<Rightarrow> 's \<Rightarrow> bool" where
  "retry_end ctxErr clock m h r cb s \<longleftrightarrow>
     list_all transient h \<and> int (length h) < m \<and> ctxErr s \<noteq> None \<and> r = Returned (ctxErr s) \<or>
     list_all transient h \<and> int (length h) < m \<and> refusing clock cb s \<and> r = Returned (Some circuit_open) \<or>
     (\<exists>h' l. h = h' @ [l] \<and> list_all transient h' \<and> int (length h) \<le> m \<and>
        (\<not> failed l \<and> r = l \<or>
         (\<exists>e. l = Returned (Some e) \<and> (IsPermanentError (Some e) \<or> cb \<noteq> None \<and> Error e = ''circuit breaker is open'') \<and> r = l) \<or>
         (\<exists>e. l = Returned (Some e) \<and> transient l \<and> int (length h) = m \<and> r = Returned (Some (max_attempts_exceeded m e)))))"

lemma try_once_run:
  assumes "records runs fn" "try_once clock fn cb s = ((r, refused), cb', s')"
  shows "refusing clock cb s \<and> cb' = cb \<and> s' = s \<and> refused \<and> r = Returned (Some circuit_open) \<or>
    runs s' = runs s @ [r] \<and> (cb' = None \<longleftrightarrow> cb = None) \<and> (refused \<longrightarrow> cb' \<noteq> None \<and> (\<exists>e. r = Returned (Some e) \<and> Error e = ''circuit breaker is open''))"
proof (cases cb)
  case None
  then show ?thesis using assms(2) recordsD [OF assms(1), of s] by (auto simp: try_once_def split: prod.splits)
next
  case (Some b)
  obtain r1 s1 where f: "fn s = (r1, s1)" by (cases "fn s")
  show ?thesis
  proof (cases "refusing clock cb s")
    case True
    then show ?thesis using assms(2) Some by (auto simp: try_once_def Call_def refusing_def circuit_open_def)
  next
    case False
    then have "\<exists>b'. Call clock fn b s = (r1, b', s1)"
      using Some f by (auto simp: Call_def refusing_def Let_def split: run.split option.split)
    then show ?thesis
      using assms(2) recordsD [OF assms(1) f] Some by (auto simp: try_once_def split: run.splits option.splits)
  qed
qed

lemma retry_from_ends:
  assumes "0 < MaxAttempts rc" "MaxAttempts rc < 2 ^ 63" "records runs fn"
    and "\<forall>d s. runs (snd (sleep d s)) = runs s" "\<forall>d s s'. sleep d s = (True, s') \<longrightarrow> ctxErr s' \<noteq> None"
    and "attempt = int (length (runs s))" "attempt < MaxAttempts rc" "list_all transient (runs s)"
  shows "\<exists>r cb' s'. retry_from ctxErr clock impl bits sleep rc fn attempt cb s = Some (r, cb', s') \<and>
    retry_end ctxErr clock (MaxAttempts rc) (runs s') r cb' s' \<and> (cb' = None \<longleftrightarrow> cb = None)"
  using assms(6-8)
proof (induction "nat (MaxAttempts rc - attempt)" arbitrary: attempt cb s rule: less_induct)
  case less
  show ?case
  proof (cases "ctxErr s")
    case (Some er)
    then show ?thesis using less.prems by (subst retry_from.simps) (simp add: retry_end_def)
  next
    case None
    obtain r refused cb1 s1 where t: "try_once clock fn cb s = ((r, refused), cb1, s1)"
      by (cases "try_once clock fn cb s") auto
    consider (refuse) "refusing clock cb s" "cb1 = cb" "s1 = s" "refused" "r = Returned (Some circuit_open)"
      | (ran) "runs s1 = runs s @ [r]" "cb1 = None \<longleftrightarrow> cb = None" "refused \<longrightarrow> cb1 \<noteq> None \<and> (\<exists>e. r = Returned (Some e) \<and> Error e = ''circuit breaker is open'')"
      using try_once_run [OF assms(3) t] by blast
    then show ?thesis
    proof cases
      case refuse
      then show ?thesis using less.prems None t by (subst retry_from.simps) (simp add: retry_end_def)
    next
      case ran
      have len: "int (length (runs s1)) = attempt + 1" using ran(1) less.prems(1) by simp
      show ?thesis
      proof (cases "transient r \<and> \<not> refused \<and> attempt < MaxAttempts rc - 1")
        case False
        then have "\<exists>r'. retry_from ctxErr clock impl bits sleep rc fn attempt cb s = Some (r', cb1, s1) \<and>
            (\<not> failed r \<and> r' = r \<or>
             (\<exists>e. r = Returned (Some e) \<and> (IsPermanentError (Some e) \<or> cb1 \<noteq> None \<and> Error e = ''circuit breaker is open'') \<and> r' = r) \<or>
             (\<exists>e. r = Returned (Some e) \<and> transient r \<and> int (length (runs s1)) = MaxAttempts rc \<and> r' = Returned (Some (max_attempts_exceeded (MaxAttempts rc) e))))"
          using None t ran(3) assms(1) less.prems(2) len
          by (subst retry_from.simps) (auto split: run.split option.split)
        then show ?thesis using ran(1,2) less.prems len by (fastforce simp: retry_end_def)
      next
        case True
        then obtain er where er: "r = Returned (Some er)" "\<not> IsPermanentError (Some er)" "\<not> refused" "attempt < MaxAttempts rc - 1"
          by (auto simp: transient_def)
        obtain stop s2 where sl: "sleep (CalculateBackoff impl (bits s1) (rc_BackoffConfig rc) attempt) s1 = (stop, s2)" by fastforce
        have r2: "runs s2 = runs s @ [r]" using assms(4) sl ran(1) by (metis snd_conv)
        have tr: "list_all transient (runs s2)" using r2 er less.prems(3) by simp
        have i: "i64 (attempt + 1) = attempt + 1" using less.prems assms(2) by (intro i64_id) (simp add: in_i64_def)
        show ?thesis
        proof (cases stop)
          case True
          then have "ctxErr s2 \<noteq> None" using assms(5) sl by simp
          moreover have "retry_from ctxErr clock impl bits sleep rc fn attempt cb s = Some (Returned (ctxErr s2), cb1, s2)"
            using er(4) True by (subst retry_from.simps) (simp add: None t er(1-3) sl)
          moreover have "int (length (runs s2)) < MaxAttempts rc" using r2 less.prems(1) er(4) by simp
          ultimately show ?thesis using tr ran(2) unfolding retry_end_def by blast
        next
          case False
          then have "retry_from ctxErr clock impl bits sleep rc fn attempt cb s = retry_from ctxErr clock impl bits sleep rc fn (attempt + 1) cb1 s2"
            using er(4) by (subst retry_from.simps) (simp add: None t er(1-3) sl i)
          then show ?thesis
            using less.hyps [of "attempt + 1" s2 cb1] less.prems(1,2) er(4) tr r2 ran(2) by (simp add: nat_less_iff)
        qed
      qed
    qed
  qed
qed

text \<open>
  C28: With a bound on the attempts \<open>RetryWithBackoff\<close> ends, and only as documented. Every run before the
  last failed for a while only. Then either the context has ended, and its error is returned; or the
  breaker is open and refuses; or the last run decides: it succeeded or panicked, its error is permanent
  (or has the breaker's own text, with a breaker) and is returned, or it is the run number
  \<open>MaxAttempts\<close> and its error is returned wrapped. In particular the function is run at most that often,
  and with a live context and no breaker it is run until it succeeds, panics or fails for good, or exactly
  that often.
\<close>

theorem RetryWithBackoff_bounded:
  assumes "0 < MaxAttempts rc" "MaxAttempts rc < 2 ^ 63" "records runs fn" "runs s = []"
    and "\<forall>d s. runs (snd (sleep d s)) = runs s" "\<forall>d s s'. sleep d s = (True, s') \<longrightarrow> ctxErr s' \<noteq> None"
  shows "\<exists>r cb' s'. RetryWithBackoff ctxErr clock impl bits sleep rc fn s = Some (r, cb', s') \<and>
    retry_end ctxErr clock (MaxAttempts rc) (runs s') r cb' s' \<and>
    (rc_CircuitBreaker rc = None \<and> (\<forall>s. ctxErr s = None) \<longrightarrow>
       (\<forall>r \<in> set (butlast (runs s')). transient r) \<and> runs s' \<noteq> [] \<and>
       (if transient (last (runs s')) then int (length (runs s')) = MaxAttempts rc else r = last (runs s')))"
proof -
  have start: "(0::int) = int (length (runs s))" "list_all transient (runs s)" using assms(4) by simp_all
  obtain r cb' s' where *: "RetryWithBackoff ctxErr clock impl bits sleep rc fn s = Some (r, cb', s')"
      "retry_end ctxErr clock (MaxAttempts rc) (runs s') r cb' s'" "cb' = None \<longleftrightarrow> rc_CircuitBreaker rc = None"
    using retry_from_ends [OF assms(1-3,5,6) start(1) assms(1) start(2), of clock impl bits "rc_CircuitBreaker rc"]
    unfolding RetryWithBackoff_def by (elim exE conjE)
  have "rc_CircuitBreaker rc = None \<and> (\<forall>s. ctxErr s = None) \<longrightarrow>
       (\<forall>r \<in> set (butlast (runs s')). transient r) \<and> runs s' \<noteq> [] \<and>
       (if transient (last (runs s')) then int (length (runs s')) = MaxAttempts rc else r = last (runs s'))"
    using *(2,3) by (auto simp: retry_end_def refusing_def list_all_iff failed_def transient_def)
  with *(1,2) show ?thesis by blast
qed

text \<open>A function that keeps losing its connection: three attempts are three runs, and their end an error.\<close>

definition offline :: "run list \<Rightarrow> run \<times> run list" where
  "offline h = (Returned (Some (Sentinel ErrConnectionLost)), h @ [Returned (Some (Sentinel ErrConnectionLost))])"

theorem RetryWithBackoff_bounded_witness:
  "\<exists>r cb' h. RetryWithBackoff (\<lambda>h. None) (int \<circ> length) (\<lambda>_. 0) length (\<lambda>d h. (False, h))
      \<lparr>MaxAttempts = 3, rc_BackoffConfig = DefaultBackoffConfig, rc_CircuitBreaker = None\<rparr> offline [] = Some (r, cb', h) \<and>
    retry_end (\<lambda>h. None) (int \<circ> length) 3 h r cb' h \<and> h \<noteq> [] \<and> (if transient (last h) then length h = 3 else r = last h)"
proof -
  have "records (\<lambda>h. h) offline" by (simp add: records_def offline_def)
  from RetryWithBackoff_bounded [of "\<lparr>MaxAttempts = 3, rc_BackoffConfig = DefaultBackoffConfig, rc_CircuitBreaker = None\<rparr>"
      "\<lambda>h. h" offline "[]" "\<lambda>d h. (False, h)" "\<lambda>h. None" "int \<circ> length" "\<lambda>_. 0" length, OF _ _ this]
  show ?thesis by (force split: if_splits)
qed

end
