(* ===== verification/Lifecycle.thy ===== *)
theory Lifecycle
  imports Heartbeat Watcher_Loop Disconnect
begin

text \<open>
  One instance as a state machine: every operation another goroutine may see completed is a step, with
  the store and the tokens drawn so far. Its invariant holds in every state an instance can reach
  from its construction, in whatever order the operations run; then come the properties of starting
  and stopping.
\<close>

subsection \<open>The invariant of an instance\<close>

definition states :: "string list" where
  "states = [StateInit, StateCandidate, StateLeader, StateFollower, StateStopped]"

text \<open>
  The reported state is one of five, and the reported leader flag agrees with it up to a restarted
  instance, which is a candidate before it has given up the flag; the time leadership began is kept
  exactly while leading; the context is one that was created, and the cancel function is its own. The
  lock is free between operations, unless the verification after a reconnect holds it and waits for
  itself: then the instance leads. \<open>el_inv\<close> is the case with a free lock.
\<close>

definition state_ok :: "string \<Rightarrow> bool \<Rightarrow> bool" where
  "state_ok st ldr \<longleftrightarrow> st \<in> set states \<and> (st = StateLeader \<longrightarrow> ldr) \<and> (ldr \<longrightarrow> st = StateLeader \<or> st = StateCandidate)"

definition ctx_ok :: "ctx_id option \<Rightarrow> nat \<Rightarrow> bool" where
  "ctx_ok c n = (case c of None \<Rightarrow> True | Some i \<Rightarrow> i < n)"

definition inst_inv :: "kvElection \<Rightarrow> bool" where
  "inst_inv e \<longleftrightarrow> (mu e \<longrightarrow> isLeader e) \<and> state_ok (state e) (isLeader e) \<and> (isLeader e \<longleftrightarrow> leaderStartTime e \<noteq> None) \<and>
     ctx_ok (ctx e) (length (contexts e)) \<and> (ctx e = None \<or> cancel e = ctx e)"

definition el_inv :: "kvElection \<Rightarrow> bool" where
  "el_inv e \<longleftrightarrow> \<not> mu e \<and> state_ok (state e) (isLeader e) \<and> (isLeader e \<longleftrightarrow> leaderStartTime e \<noteq> None) \<and>
     ctx_ok (ctx e) (length (contexts e)) \<and> (ctx e = None \<or> cancel e = ctx e)"

text \<open>
  The lemmas below carry, with the invariant, the fact that a lock held before (\<open>lk\<close>) is still held.
\<close>

definition held_inv :: "bool \<Rightarrow> kvElection \<Rightarrow> bool" where
  "held_inv lk e \<longleftrightarrow> (lk \<longrightarrow> mu e) \<and> inst_inv e"

lemmas held_inv_defs = held_inv_def inst_inv_def

lemma state_ok_simps [simp]:
  "state_ok StateLeader True" "state_ok StateCandidate b" "state_ok StateFollower False" "state_ok StateStopped False"
  "state_ok StateInit False"
  by (simp_all add: state_ok_def states_def)

lemma ctx_ok_simps [simp]: "ctx_ok None n" "ctx_ok (Some i) n \<longleftrightarrow> i < n"
  by (simp_all add: ctx_ok_def)

lemma held_inv_cong:
  "mu e' = mu e \<Longrightarrow> state e' = state e \<Longrightarrow> isLeader e' = isLeader e \<Longrightarrow> leaderStartTime e' = leaderStartTime e \<Longrightarrow>
   ctx e' = ctx e \<Longrightarrow> cancel e' = cancel e \<Longrightarrow> contexts e' = contexts e \<Longrightarrow> held_inv lk e' = held_inv lk e"
  by (simp add: held_inv_defs)

lemma held_inv_same: "same_but_metrics e e' \<Longrightarrow> held_inv lk e' = held_inv lk e"
  by (cases e; cases e'; simp add: same_but_metrics_def held_inv_defs)

lemma held_inv_init: "held_inv False (init_election c hasConn)"
  by (simp add: held_inv_defs init_election_def)

lemma held_inv_promoted: "held_inv lk e \<Longrightarrow> held_inv lk (promoted now tok rv e)"
  by (simp add: held_inv_defs)

lemma held_inv_demoted: "\<not> mu e \<Longrightarrow> held_inv lk e \<Longrightarrow> held_inv lk (demoted now e)"
  by (simp add: held_inv_defs) (simp add: demoted_def Let_def)

lemma held_inv_becomeLeader: "becomeLeader now tok rv e = Done e' \<Longrightarrow> held_inv lk e \<Longrightarrow> held_inv lk e'"
  by (auto simp: becomeLeader_outcome held_inv_promoted split: if_splits)

lemma held_inv_becomeFollower: "becomeFollower now e = Done e' \<Longrightarrow> held_inv lk e \<Longrightarrow> held_inv lk e'"
  by (auto simp: becomeFollower_outcome held_inv_demoted split: if_splits)

lemma held_inv_go [simp]: "held_inv lk (go g e) = held_inv lk e"
  by (simp add: go_def held_inv_defs)

lemma held_inv_observe [simp]: "held_inv lk (observe m e) = held_inv lk e"
  by (simp add: observe_eq held_inv_defs)

lemma held_inv_record [simp]: "held_inv lk (recordFailure t e) = held_inv lk e" "held_inv lk (recordAcquireAttempt t e) = held_inv lk e"
  by (simp_all add: recordFailure_def recordAcquireAttempt_def)

lemma held_inv_upd [simp]:
  "held_inv lk (e\<lparr>leaderID := a\<rparr>) = held_inv lk e" "held_inv lk (e\<lparr>token := a\<rparr>) = held_inv lk e" "held_inv lk (e\<lparr>revision := r\<rparr>) = held_inv lk e"
  "held_inv lk (e\<lparr>lastHeartbeat := t\<rparr>) = held_inv lk e" "held_inv lk (e\<lparr>healthFailureCount := k\<rparr>) = held_inv lk e"
  "held_inv lk (e\<lparr>watcherRunning := b\<rparr>) = held_inv lk e" "held_inv lk (e\<lparr>wg := n\<rparr>) = held_inv lk e"
  "held_inv lk (e\<lparr>connectionMonitor := m\<rparr>) = held_inv lk e" "held_inv lk (e\<lparr>dHandler := d\<rparr>) = held_inv lk e"
  "held_inv lk (e\<lparr>onPromote := c\<rparr>) = held_inv lk e" "held_inv lk (e\<lparr>onDemote := c\<rparr>) = held_inv lk e"
  "held_inv lk (e\<lparr>demoteCalls := cs\<rparr>) = held_inv lk e"
  by (simp_all add: held_inv_defs)

lemma held_inv_demoted_called: "\<not> mu e \<Longrightarrow> held_inv lk e \<Longrightarrow> held_inv lk (demoted_called now e)"
  by (simp add: demoted_called_def held_inv_demoted)

lemma length_cancel_ctx [simp]: "length (contexts (cancel_ctx c e)) = length (contexts e)"
  by (simp add: cancel_ctx_def split: option.split)

lemma cancel_ctx_simps [simp]:
  "mu (cancel_ctx c e) = mu e" "state (cancel_ctx c e) = state e" "isLeader (cancel_ctx c e) = isLeader e"
  "leaderStartTime (cancel_ctx c e) = leaderStartTime e" "ctx (cancel_ctx c e) = ctx e" "cancel (cancel_ctx c e) = cancel e"
  "cfg (cancel_ctx c e) = cfg e" "key (cancel_ctx c e) = key e" "onDemote (cancel_ctx c e) = onDemote e"
  "demoteCalls (cancel_ctx c e) = demoteCalls e" "connectionMonitor (cancel_ctx c e) = connectionMonitor e"
  "revision (cancel_ctx c e) = revision e" "token (cancel_ctx c e) = token e" "metrics (cancel_ctx c e) = metrics e"
  "dHandler (cancel_ctx c e) = dHandler e" "gos (cancel_ctx c e) = gos e"
  by (simp_all add: cancel_ctx_def split: option.split)

lemma held_inv_Start: "Start now parent e = Done (err, e') \<Longrightarrow> held_inv lk e \<Longrightarrow> held_inv lk e'"
  by (auto simp: Start_def Lock_def Unlock_def held_inv_defs observe_eq go_def Let_def split: if_splits option.splits)

lemma set_stopped_simps [simp]:
  "\<not> isLeader (set_stopped now e)" "state (set_stopped now e) = StateStopped" "mu (set_stopped now e) = mu e"
  "ctx (set_stopped now e) = ctx e" "length (contexts (set_stopped now e)) = length (contexts e)"
  "onDemote (set_stopped now e) = onDemote e" "demoteCalls (set_stopped now e) = demoteCalls e"
  "cfg (set_stopped now e) = cfg e" "key (set_stopped now e) = key e" "\<not> watcherRunning (set_stopped now e)"
  "contexts (set_stopped now e) = contexts (cancel_ctx (cancel e) e)" "cancel (set_stopped now e) = cancel e"
  "leaderStartTime (set_stopped now e) = (if isLeader e then None else leaderStartTime e)"
  "revision (set_stopped now e) = revision e" "token (set_stopped now e) = token e"
  "connectionMonitor (set_stopped now e) = connectionMonitor e" "gos (set_stopped now e) = gos e"
  by (simp_all add: set_stopped_def stop_handler_def recordLeaderDuration_def metric_defs Let_def split: option.split)

lemma held_inv_set_stopped: "\<not> mu e \<Longrightarrow> held_inv lk e \<Longrightarrow> held_inv lk (Unlock (set_stopped now (e\<lparr>mu := True\<rparr>)))"
  by (simp add: held_inv_defs Unlock_def)

subsection \<open>Operations keep the invariant\<close>

lemma held_inv_stop_monitor [simp]: "held_inv lk (stop_monitor e) = held_inv lk e"
  by (simp add: stop_monitor_def)

lemma held_inv_Unlock_Lock: "\<not> mu e \<Longrightarrow> held_inv lk (Unlock (e\<lparr>mu := True\<rparr>)) = held_inv lk e"
  by (simp add: held_inv_defs Unlock_def)

lemma held_inv_Stop_begin: "Stop_begin now e = Done (r, e') \<Longrightarrow> held_inv lk e \<Longrightarrow> held_inv lk e'"
  using held_inv_set_stopped [of e lk now] held_inv_Unlock_Lock [of e lk]
  by (auto simp: Stop_begin_def Lock_def log_then_eq Let_def split: if_splits)

lemma held_inv_Stop_end: "Stop_end b e = Done (err, e') \<Longrightarrow> held_inv lk e \<Longrightarrow> held_inv lk e'"
  by (auto simp: Stop_end_def log_then_eq split: if_splits option.splits)

lemma held_inv_StopWithContext_begin: "StopWithContext_begin now e = Done (r, e') \<Longrightarrow> held_inv lk e \<Longrightarrow> held_inv lk e'"
  using held_inv_set_stopped [of e lk now] held_inv_Unlock_Lock [of e lk]
  by (auto simp: StopWithContext_begin_def Lock_def split: if_splits)

lemma held_inv_stop_finish:
  "stop_finish kv c opts t wl dw w = Done (err, w') \<Longrightarrow> held_inv lk (el w) \<Longrightarrow> held_inv lk (el w')"
  by (auto simp: stop_finish_def Lock_def Unlock_def Let_def held_inv_defs go_def split: if_splits option.splits)

lemma held_inv_acquire_won: "acquire_won now tok rv w = Done (err, w') \<Longrightarrow> held_inv lk (el w) \<Longrightarrow> held_inv lk (el w')"
  by (auto simp: acquire_won_Done intro!: held_inv_promoted)

lemma held_inv_acquire_once:
  "acquire_once uuid kv now w = Result (Done (err, w')) \<Longrightarrow> held_inv lk (el w) \<Longrightarrow> held_inv lk (el w')"
  by (auto simp: acquire_once_def takeover_body_def takeover_result_def acquire_won_Done acquire_failed_Done
      record_failed_def log_then_eq Let_def held_inv_promoted split: prod.splits sum.splits option.splits if_splits
      dest: held_inv_becomeLeader)

lemma acquire_once_Again_el: "acquire_once uuid kv now w = Again w' \<Longrightarrow> el w' = el w"
  by (auto simp: acquire_once_def takeover_body_def Let_def split: prod.splits sum.splits option.splits if_splits)

lemma held_inv_attemptAcquire:
  assumes "attemptAcquire uuid kv now w = Some y" "y = Done (err, w')" "held_inv lk (el w)"
  shows "held_inv lk (el w')"
  using assms
proof (induction rule: attemptAcquire_induct)
  case (result w y)
  then show ?case using held_inv_acquire_once by blast
next
  case (again w w1 y)
  then show ?case using acquire_once_Again_el by metis
qed

lemma held_inv_follow: "follow now w = Done w' \<Longrightarrow> held_inv lk (el w) \<Longrightarrow> held_inv lk (el w')"
  by (auto simp: follow_def dest: held_inv_becomeFollower)

lemma held_inv_record_failed [simp]: "held_inv lk (el (record_failed err w)) = held_inv lk (el w)"
  by (simp add: record_failed_def)

lemma held_inv_validateToken: "validateToken kv c late w = Done (r, w') \<Longrightarrow> held_inv lk (el w') = held_inv lk (el w)"
  using validateToken_frame [of kv c late w "fst r" "snd r" w'] held_inv_same by auto

lemma held_inv_handleValidationFailure: "handleValidationFailure now e = Done e' \<Longrightarrow> held_inv lk e \<Longrightarrow> held_inv lk e'"
  by (simp add: validation_failure.handler_Done held_inv_demoted_called)

lemma held_inv_ValidateTokenOrDemote:
  "ValidateTokenOrDemote kv now c late w = Done (b, w') \<Longrightarrow> held_inv lk (el w) \<Longrightarrow> held_inv lk (el w')"
  by (auto simp: ValidateTokenOrDemote_def ValidateToken_def split: if_splits
      dest: held_inv_validateToken held_inv_handleValidationFailure)

lemma held_inv_validation_pass:
  "validation_pass kv c t n w = Done r \<Longrightarrow> held_inv lk (el w) \<Longrightarrow> held_inv lk (el (loop_world r))"
  by (auto simp: validation_pass_def demote_and_return_def count_validation_failure_def log_then_eq Let_def
      split: if_splits dest!: held_inv_validateToken dest: held_inv_handleValidationFailure)

lemma held_inv_heartbeat_failed:
  "heartbeat_failed kv c t n err w = Done r \<Longrightarrow> held_inv lk (el w) \<Longrightarrow> held_inv lk (el (loop_world r))"
  by (auto simp: heartbeat_failed_def log_takeover_def with_el_def log_then_eq Let_def observe_heartbeat_def
      heartbeat_failure.handler_Done held_inv_demoted_called
      split: if_splits prod.splits sum.splits option.splits)

lemma held_inv_heartbeat_succeeded:
  "heartbeat_succeeded c t n rv w = Done r \<Longrightarrow> held_inv lk (el w) \<Longrightarrow> held_inv lk (el (loop_world r))"
  by (auto simp: heartbeat_succeeded_def log_then_eq Let_def observe_heartbeat_def split: if_splits)

lemma held_inv_heartbeat_pass:
  assumes "heartbeat_pass kv c t n w = Done r" "held_inv lk (el w)" "ht_mid t = id" "ht_after t = id"
  shows "held_inv lk (el (loop_world r))"
proof -
  have u: "held_inv lk (el (loop_world r))" if "heartbeat_update kv c t n x = Done r" "held_inv lk (el x)" for x
    using that assms(3,4)
    by (auto simp: heartbeat_update_def Let_def split: update_wait.splits prod.splits sum.splits
        dest!: held_inv_heartbeat_failed held_inv_heartbeat_succeeded)
  show ?thesis
    using assms(1,2)
    by (auto simp: heartbeat_pass_def with_el_def log_then_eq Let_def health_failure.handler_Done held_inv_demoted_called
        split: if_splits dest: u)
qed

lemma held_inv_handleWatchEvent: "handleWatchEvent now entry e = Done e' \<Longrightarrow> held_inv lk e \<Longrightarrow> held_inv lk e'"
  by (auto simp: handleWatchEvent_def log_then_eq Let_def split: option.splits if_splits sum.splits
      dest: held_inv_becomeFollower)

lemma held_inv_checkKeyAndReelect: "checkKeyAndReelect kv c w = Done w' \<Longrightarrow> held_inv lk (el w) \<Longrightarrow> held_inv lk (el w')"
  by (auto simp: checkKeyAndReelect_def log_then_eq Let_def split: option.splits if_splits sum.splits prod.splits json.splits)

lemma held_inv_conn_disconnected: "conn_disconnected now e = Done e' \<Longrightarrow> held_inv lk e \<Longrightarrow> held_inv lk e'"
  by (auto simp: conn_disconnected_def dh_handleDisconnect_def log_then_eq Let_def split: option.splits if_splits prod.splits)

lemma held_inv_handleReconnect: "handleReconnect e = Done e' \<Longrightarrow> held_inv lk e \<Longrightarrow> held_inv lk e'"
  by (cases "mu e"; cases "dHandler e"; cases "isLeader e"; cases "can_log (ctx e) (contexts e)")
    (simp_all add: handleReconnect_def Lock_def Unlock_def log_then_eq Let_def observe_eq go_def held_inv_defs, auto)

lemma held_inv_conn_reconnected: "conn_reconnected e = Done e' \<Longrightarrow> held_inv lk e \<Longrightarrow> held_inv lk e'"
  by (auto simp: conn_reconnected_def Let_def split: option.splits if_splits prod.splits dest: held_inv_handleReconnect)

lemma held_inv_grace: "handleGracePeriodExpired now e = Done e' \<Longrightarrow> held_inv lk e \<Longrightarrow> held_inv lk e'"
  by (auto simp: handleGracePeriodExpired_outcome held_inv_demoted_called split: if_splits)

lemma held_inv_verify_failed: "handleReconnectVerificationFailed now e = Done e' \<Longrightarrow> held_inv lk e \<Longrightarrow> held_inv lk e'"
  by (auto simp: handleReconnectVerificationFailed_def Lock_def Unlock_def log_then_eq becomeFollower_outcome held_inv_defs
      split: if_splits)

lemma held_inv_verify:
  assumes "verifyLeadershipAfterReconnect kv now late w = Done w'" "held_inv lk (el w)"
  shows "held_inv lk (el w')"
proof (cases "fst (Get kv (key (el w)) (store w))")
  case (Inl err)
  then show ?thesis
    using assms by (cases "Get kv (key (el w)) (store w)")
      (auto simp: verifyLeadershipAfterReconnect_def Let_def dest: held_inv_verify_failed)
next
  case (Inr en)
  then obtain v err w1 where v: "validateToken kv Background late (w\<lparr>store := snd (Get kv (key (el w)) (store w))\<rparr>) = Done ((v, err), w1)"
    using assms(1) by (cases "Get kv (key (el w)) (store w)") (auto simp: verifyLeadershipAfterReconnect_def Let_def)
  have i: "held_inv lk (el w1)" using held_inv_validateToken [OF v] assms(2) by simp
  show ?thesis
  proof (cases "err \<noteq> None \<or> \<not> v")
    case True
    then show ?thesis
      using assms(1) Inr v i by (cases "Get kv (key (el w)) (store w)")
        (auto simp: verifyLeadershipAfterReconnect_def Let_def dest: held_inv_verify_failed)
  next
    case False
    then show ?thesis
      using assms(1) Inr v i by (cases "Get kv (key (el w)) (store w)"; cases "connectionMonitor (el w1)")
        (auto simp: verifyLeadershipAfterReconnect_def Lock_def Unlock_def observe_eq held_inv_defs Let_def split: if_splits)
  qed
qed

lemma held_inv_callback: "OnPromote fn e = Done e' \<Longrightarrow> held_inv lk e \<Longrightarrow> held_inv lk e'" "OnDemote fn e = Done e' \<Longrightarrow> held_inv lk e \<Longrightarrow> held_inv lk e'"
  by (auto simp: OnPromote_def OnDemote_def Lock_def Unlock_def held_inv_defs split: if_splits)

subsection \<open>The steps of an instance\<close>

text \<open>
  Every method call and every pass of a loop that returns is a step; goroutines interleave between
  steps. The several attempts of a round of retries are steps of their own, and so is what becomes of a
  successful \<open>Create\<close> when its answer comes late (\<open>OpCreated\<close>, with the token and revision it was made with),
  and an update of the store that a heartbeat has given up waiting for (\<open>OpLateUpdate\<close>), which carries some
  token and revision the instance had at an earlier time. \<open>Stop\<close> and \<open>StopWithContext\<close> are two steps each,
  before and after their wait. \<open>OpWedge\<close> is the failed verification of a leader after a reconnect, which takes
  the lock and waits for it again for ever. A method that waits for a lock that is never released is never
  completed and takes no step; a panic ends the process. \<open>OpStore\<close> is any change others make to the store.
\<close>

datatype op =
    OpStart | OpStop | OpStopEnd | OpStopWithContext bool | OpAcquire | OpCreated | OpRecord | OpFollow | OpHeartbeat
  | OpLateUpdate | OpValidate | OpWatch | OpWatchEnd | OpCheck | OpConnection | OpGrace | OpVerify | OpWedge
  | OpCallback | OpStore

inductive step :: "(nat \<Rightarrow> string) \<Rightarrow> 's KeyValue \<Rightarrow> op \<Rightarrow> 's world \<Rightarrow> 's world \<Rightarrow> bool" for uuid kv where
  step_start: "Start now parent (el w) = Done (err, e') \<Longrightarrow> step uuid kv OpStart w (w\<lparr>el := e'\<rparr>)"
| step_stop: "Stop_begin now (el w) = Done (r, e') \<Longrightarrow> step uuid kv OpStop w (w\<lparr>el := e'\<rparr>)"
| step_stop_end: "Stop_end wasLeader (el w) = Done (err, e') \<Longrightarrow> step uuid kv OpStopEnd w (w\<lparr>el := e'\<rparr>)"
| step_stop_ctx: "StopWithContext_begin now (el w) = Done (r, e') \<Longrightarrow> step uuid kv OpStop w (w\<lparr>el := e'\<rparr>)"
| step_stop_finish: "stop_finish kv c opts timeout wasLeader dw w = Done (err, w') \<Longrightarrow>
    step uuid kv (OpStopWithContext (DeleteKey opts)) w w'"
| step_acquire: "attemptAcquire uuid kv now w = Some (Done (err, w')) \<Longrightarrow> step uuid kv OpAcquire w w'"
| step_created: "acquire_won now tok rv w = Done (err, w') \<Longrightarrow> step uuid kv OpCreated w w'"
| step_record: "step uuid kv OpRecord w (record_failed er w)"
| step_follow: "follow now w = Done w' \<Longrightarrow> step uuid kv OpFollow w w'"
| step_heartbeat: "heartbeat_pass kv c t n w = Done r \<Longrightarrow> ht_mid t = id \<Longrightarrow> ht_after t = id \<Longrightarrow>
    step uuid kv OpHeartbeat w (loop_world r)"
| step_late_update: "Update kv (key (el w)) (json_Marshal (own_payload (el w) tok)) rv opts (store w) = (r, st) \<Longrightarrow>
    step uuid kv OpLateUpdate w (w\<lparr>store := st\<rparr>)"
| step_validate_token: "validateToken kv cx late w = Done (v, w') \<Longrightarrow> step uuid kv OpValidate w w'"
| step_validate: "ValidateTokenOrDemote kv now cx late w = Done (b, w') \<Longrightarrow> step uuid kv OpValidate w w'"
| step_validation_pass: "validation_pass kv c vt n w = Done r \<Longrightarrow> step uuid kv OpValidate w (loop_world r)"
| step_watch: "handleWatchEvent now entry (el w) = Done e' \<Longrightarrow> step uuid kv OpWatch w (w\<lparr>el := e'\<rparr>)"
| step_watch_end: "step uuid kv OpWatchEnd w (w\<lparr>el := (el w)\<lparr>wg := wg (el w) - 1, watcherRunning := False\<rparr>\<rparr>)"
| step_check: "checkKeyAndReelect kv co w = Done w' \<Longrightarrow> step uuid kv OpCheck w w'"
| step_disconnected: "conn_disconnected now (el w) = Done e' \<Longrightarrow> step uuid kv OpConnection w (w\<lparr>el := e'\<rparr>)"
| step_reconnected: "conn_reconnected (el w) = Done e' \<Longrightarrow> step uuid kv OpConnection w (w\<lparr>el := e'\<rparr>)"
| step_closed: "step uuid kv OpConnection w (w\<lparr>el := conn_closed (el w)\<rparr>)"
| step_grace: "handleGracePeriodExpired now (el w) = Done e' \<Longrightarrow> step uuid kv OpGrace w (w\<lparr>el := e'\<rparr>)"
| step_verify: "verifyLeadershipAfterReconnect kv now late w = Done w' \<Longrightarrow> step uuid kv OpVerify w w'"
| step_wedge: "handleReconnectVerificationFailed now (el w) = Blocked \<Longrightarrow> \<not> mu (el w) \<Longrightarrow>
    step uuid kv OpWedge w (w\<lparr>el := (el w)\<lparr>mu := True\<rparr>\<rparr>)"
| step_on_promote: "OnPromote fn (el w) = Done e' \<Longrightarrow> step uuid kv OpCallback w (w\<lparr>el := e'\<rparr>)"
| step_on_demote: "OnDemote fn (el w) = Done e' \<Longrightarrow> step uuid kv OpCallback w (w\<lparr>el := e'\<rparr>)"
| step_store: "step uuid kv OpStore w (w\<lparr>store := st\<rparr>)"

inductive_cases step_startE: "step uuid kv OpStart w w'"
inductive_cases step_acquireE: "step uuid kv OpAcquire w w'"
inductive_cases step_storeE: "step uuid kv OpStore w w'"

lemma conn_closed_inv [simp]: "held_inv lk (conn_closed e) = held_inv lk e"
  by (simp add: conn_closed_def)

lemma held_inv_wedge:
  assumes "handleReconnectVerificationFailed now e = Blocked" "\<not> mu e" "held_inv lk e"
  shows "held_inv lk (e\<lparr>mu := True\<rparr>)"
proof -
  have "isLeader e"
    using assms(1,2) by (auto simp: handleReconnectVerificationFailed_def Lock_def log_then_eq split: if_splits)
  with assms(3) show ?thesis by (simp add: held_inv_defs)
qed

lemmas held_inv_operations =
  held_inv_Start held_inv_Stop_begin held_inv_Stop_end held_inv_StopWithContext_begin held_inv_stop_finish
  held_inv_attemptAcquire held_inv_acquire_won held_inv_follow held_inv_heartbeat_pass
  held_inv_ValidateTokenOrDemote held_inv_validation_pass held_inv_handleWatchEvent held_inv_checkKeyAndReelect
  held_inv_conn_disconnected held_inv_conn_reconnected held_inv_grace held_inv_verify held_inv_wedge held_inv_callback

lemma held_inv_step: "step uuid kv l w w' \<Longrightarrow> held_inv lk (el w) \<Longrightarrow> held_inv lk (el w')"
  by (induction rule: step.induct) (auto simp: held_inv_validateToken intro: held_inv_operations)

definition created :: "'s world \<Rightarrow> bool" where
  "created w \<longleftrightarrow> (\<exists>nc hasConn c kv'. newKVElection nc hasConn c = Inr (el w, kv' :: 's KeyValue))"

lemma newKVElection_Inr:
  "newKVElection nc hasConn c = Inr (e, kv) \<Longrightarrow> e = init_election c hasConn \<and> validateConfig c = None"
  by (auto simp: newKVElection_def split: option.splits sum.splits)

lemma created_init: "created w \<Longrightarrow> \<exists>c hasConn. el w = init_election c hasConn \<and> validateConfig c = None"
  unfolding created_def by (metis newKVElection_Inr)

interpretation el_sys: invariant_system created "step uuid kv" "\<lambda>w. inst_inv (el w)" for uuid kv
proof (unfold_locales, goal_cases)
  case (1 w)
  then show ?case using created_init [of w] held_inv_init by (auto simp: held_inv_def)
next
  case (2 w l w')
  then show ?case using held_inv_step [of uuid kv l w w' False] by (simp add: held_inv_def)
qed

text \<open>
  C6: In every state an instance can reach from its construction, whatever operations ran in whatever
  order, completed or failed: the state is one of the five in use (DEMOTED is never entered); state LEADER
  implies the leader flag, and the flag implies state LEADER, or CANDIDATE for an instance restarted while
  it led; the start of the leadership is recorded exactly while the flag is set; the context is one that was
  created. The lock is free, or else the instance is a leader whose verification after a reconnect failed
  and holds the lock for ever: then no later step ever frees it, and the flag stays set.
\<close>

theorem instance_invariant:
  assumes "reachable created (step uuid kv) w"
  shows "inst_inv (el w) \<and> state (el w) \<noteq> StateDemoted \<and>
    (mu (el w) \<longrightarrow> isLeader (el w) \<and> (\<forall>l w'. step uuid kv l w w' \<longrightarrow> mu (el w') \<and> isLeader (el w')))"
proof -
  have i: "inst_inv (el w)" using el_sys.reachable_inv assms by blast
  have "mu (el w') \<and> isLeader (el w')" if "mu (el w)" "step uuid kv l w w'" for l w'
  proof -
    have "held_inv True (el w')" using held_inv_step [OF that(2), of True] that(1) i by (simp add: held_inv_def)
    then show ?thesis unfolding held_inv_defs by blast
  qed
  moreover have "mu (el w) \<Longrightarrow> isLeader (el w)" "state (el w) \<noteq> StateDemoted"
    using i by (auto simp: inst_inv_def state_ok_def states_def)
  ultimately show ?thesis using i by blast
qed

definition new_world :: "MockKeyValue world" where
  "new_world = \<lparr>el = init_election (demo_config ''node-1'') False, store = NewMockKeyValue, uuids = 0\<rparr>"

lemma new_world_created: "created new_world"
proof -
  have "newKVElection (Inr (\<lambda>b. Inr MockKeyValueAdapter)) False (demo_config ''node-1'') = Inr (el new_world, MockKeyValueAdapter)"
    by (simp add: newKVElection_def demo_config_valid new_world_def)
  then show ?thesis unfolding created_def by blast
qed

theorem instance_invariant_witness:
  "\<exists>w. reachable created (step demo_uuid MockKeyValueAdapter) w \<and> state (el w) = StateCandidate \<and>
     inst_inv (el w) \<and> state (el w) \<noteq> StateDemoted"
proof -
  obtain e' where s: "Start 3 Background (el new_world) = Done (None, e')" "state e' = StateCandidate"
    by (simp add: Start_def new_world_def init_election_def Lock_def Unlock_def logFields_def go_def Background_def Let_def)
  have r: "reachable created (step demo_uuid MockKeyValueAdapter) (new_world\<lparr>el := e'\<rparr>)"
    by (rule reachable_step [of created _ new_world])
      (rule reachable_init, rule new_world_created, rule step_start [OF s(1)])
  with instance_invariant [OF r] s(2) show ?thesis by auto
qed

subsection \<open>Starting\<close>

text \<open>The instance is running: it has a context that is not done.\<close>

definition running :: "kvElection \<Rightarrow> bool" where
  "running e = (case ctx e of None \<Rightarrow> False | Some i \<Rightarrow> ctx_Err (get_ctx e i) = None)"

lemma Unlock_Lock: "\<not> mu e \<Longrightarrow> Unlock (e\<lparr>mu := True\<rparr>) = e"
  by (cases e) (simp add: Unlock_def)

lemma Start_running: "\<not> mu e \<Longrightarrow> running e \<Longrightarrow> Start now parent e = Done (Some (Sentinel ErrAlreadyStarted), e)"
  by (auto simp: Start_def Lock_def running_def get_ctx_def Unlock_Lock split: option.splits)

lemma Start_fresh:
  assumes "\<not> mu e" "connectionMonitor e = None" "ctx_corr parent \<noteq> Some CorrOther" "\<not> running e"
  shows "Start now parent e = Done (None,
    e\<lparr>contexts := contexts e @ [parent], ctx := Some (length (contexts e)), cancel := Some (length (contexts e)),
      state := StateCandidate, lastTransition := Some now, gos := gos e @ [Go_startAcquire], wg := wg e + 1\<rparr>)"
  using assms
  by (cases e; cases "ctx e")
    (auto simp: Start_def Lock_def Unlock_def running_def get_ctx_def go_def and_then_logFields Let_def split: if_splits)

text \<open>The connection monitor, if there is one, was started before: it can be started only once.\<close>

definition monitor_used :: "kvElection \<Rightarrow> bool" where
  "monitor_used e = (case connectionMonitor e of None \<Rightarrow> False | Some m \<Rightarrow> mon_ctx m)"

lemma Start_used:
  assumes "\<not> mu e" "\<not> running e" "monitor_used e"
  shows "\<exists>e'. Start now parent e = Done (Some (WrapError ''failed to start connection monitor'' (Sentinel ErrAlreadyStarted)), e') \<and>
    state e' = state e \<and> isLeader e' = isLeader e \<and> gos e' = gos e \<and> \<not> mu e' \<and>
    ctx e' = Some (length (contexts e)) \<and> ctx_Err (get_ctx e' (length (contexts e))) \<noteq> None"
proof -
  obtain m where m: "connectionMonitor e = Some m" "mon_ctx m" using assms(3) by (auto simp: monitor_used_def split: option.splits)
  then have s: "mon_Start m = (Some (Sentinel ErrAlreadyStarted), m)" by (simp add: mon_Start_def)
  show ?thesis
    using assms(1,2) m(1) s
    by (cases "ctx e")
      (auto simp: Start_def Lock_def Unlock_def running_def get_ctx_def cancel_ctx_def Let_def)
qed

lemma Start_monitored:
  assumes "\<not> mu e" "connectionMonitor e = Some m" "\<not> mon_ctx m" "ctx_corr parent \<noteq> Some CorrOther" "\<not> running e"
  shows "\<exists>ms. Start now parent e = Done (None,
    e\<lparr>contexts := contexts e @ [parent], ctx := Some (length (contexts e)), cancel := Some (length (contexts e)),
      state := StateCandidate, lastTransition := Some now, gos := gos e @ [Go_startAcquire], wg := wg e + 1,
      connectionMonitor := Some (mon_OnReconnect (Some H_handleReconnect) (mon_OnDisconnect (Some H_disconnectHandler) (snd (mon_Start m)))),
      metrics := ms\<rparr>)"
proof -
  have "fst (mon_Start m) = None" using assms(3) by (simp add: mon_Start_def)
  with assms(1,2,4,5) show ?thesis
    by (cases e; cases "ctx e")
      (auto simp: Start_def Lock_def Unlock_def running_def get_ctx_def go_def and_then_logFields observe_eq Let_def split: if_splits)
qed

lemma Start_new:
  assumes "\<not> mu e" "\<not> running e" "\<not> monitor_used e" "ctx_corr parent \<noteq> Some CorrOther"
  shows "\<exists>e'. Start now parent e = Done (None, e') \<and> state e' = StateCandidate \<and> isLeader e' = isLeader e \<and> \<not> mu e' \<and>
    gos e' = gos e @ [Go_startAcquire] \<and> ctx e' = Some (length (contexts e)) \<and> get_ctx e' (length (contexts e)) = parent \<and>
    (connectionMonitor e = None \<longleftrightarrow> connectionMonitor e' = None) \<and>
    (\<forall>m. connectionMonitor e' = Some m \<longrightarrow> mon_ctx m \<and> mon_Status m = ConnectionStatusConnected \<and>
       mon_disconnectHandler m = Some H_disconnectHandler \<and> mon_reconnectHandler m = Some H_handleReconnect)"
proof (cases "connectionMonitor e")
  case None
  with Start_fresh [OF assms(1) None assms(4,2), of now] assms(1) show ?thesis by (simp add: get_ctx_def)
next
  case (Some m)
  then have m: "\<not> mon_ctx m" using assms(3) by (simp add: monitor_used_def)
  obtain ms where "Start now parent e = Done (None,
    e\<lparr>contexts := contexts e @ [parent], ctx := Some (length (contexts e)), cancel := Some (length (contexts e)),
      state := StateCandidate, lastTransition := Some now, gos := gos e @ [Go_startAcquire], wg := wg e + 1,
      connectionMonitor := Some (mon_OnReconnect (Some H_handleReconnect) (mon_OnDisconnect (Some H_disconnectHandler) (snd (mon_Start m)))),
      metrics := ms\<rparr>)" using Start_monitored [OF assms(1) Some m assms(4,2)] by blast
  with Some m assms(1) show ?thesis by (simp add: get_ctx_def mon_defs)
qed

text \<open>
  C21: \<open>Start\<close>. While the instance is running it is refused with ErrAlreadyStarted and changes nothing.
  An instance whose connection monitor was started before cannot be started: the monitor's
  ErrAlreadyStarted is returned, wrapped, and the new context is cancelled at once. Otherwise \<open>Start\<close>
  succeeds: the instance is a candidate with a new context, one acquisition goroutine has been started,
  a monitor is connected with the two handlers installed, and with a live parent context a second
  \<open>Start\<close> is refused.
\<close>

theorem Start_behaviour:
  assumes "\<not> mu e" "ctx_corr parent \<noteq> Some CorrOther"
  shows "if running e then Start now parent e = Done (Some (Sentinel ErrAlreadyStarted), e)
    else if monitor_used e then
      \<exists>e'. Start now parent e = Done (Some (WrapError ''failed to start connection monitor'' (Sentinel ErrAlreadyStarted)), e') \<and>
        state e' = state e \<and> isLeader e' = isLeader e \<and> gos e' = gos e \<and>
        ctx e' = Some (length (contexts e)) \<and> ctx_Err (get_ctx e' (length (contexts e))) \<noteq> None
    else
      \<exists>e'. Start now parent e = Done (None, e') \<and> state e' = StateCandidate \<and> isLeader e' = isLeader e \<and>
        gos e' = gos e @ [Go_startAcquire] \<and> ctx e' = Some (length (contexts e)) \<and> get_ctx e' (length (contexts e)) = parent \<and>
        (connectionMonitor e = None \<longleftrightarrow> connectionMonitor e' = None) \<and>
        (\<forall>m. connectionMonitor e' = Some m \<longrightarrow> mon_ctx m \<and> mon_Status m = ConnectionStatusConnected \<and>
           mon_disconnectHandler m = Some H_disconnectHandler \<and> mon_reconnectHandler m = Some H_handleReconnect) \<and>
        (ctx_Err parent = None \<longrightarrow> (\<forall>now' p. Start now' p e' = Done (Some (Sentinel ErrAlreadyStarted), e')))"
proof (cases "running e \<or> monitor_used e")
  case True
  with Start_running [OF assms(1)] Start_used [OF assms(1), of now parent] show ?thesis by auto
next
  case False
  then have n: "\<not> running e" "\<not> monitor_used e" by simp_all
  obtain e' where e': "Start now parent e = Done (None, e')" "state e' = StateCandidate" "isLeader e' = isLeader e" "\<not> mu e'"
      "gos e' = gos e @ [Go_startAcquire]" "ctx e' = Some (length (contexts e))" "get_ctx e' (length (contexts e)) = parent"
      "connectionMonitor e = None \<longleftrightarrow> connectionMonitor e' = None"
      "\<forall>m. connectionMonitor e' = Some m \<longrightarrow> mon_ctx m \<and> mon_Status m = ConnectionStatusConnected \<and>
         mon_disconnectHandler m = Some H_disconnectHandler \<and> mon_reconnectHandler m = Some H_handleReconnect"
    using Start_new [OF assms(1) n assms(2), of now] by (elim exE conjE)
  have "Start now' p e' = Done (Some (Sentinel ErrAlreadyStarted), e')" if "ctx_Err parent = None" for now' p
    using e'(4,6,7) that by (intro Start_running) (simp_all add: running_def)
  then have again: "ctx_Err parent = None \<longrightarrow> (\<forall>now' p. Start now' p e' = Done (Some (Sentinel ErrAlreadyStarted), e'))" by blast
  show ?thesis
    unfolding if_not_P [OF n(1)] if_not_P [OF n(2)]
    using e' again by (intro exI [of _ e'] conjI) assumption+
qed

theorem Start_behaviour_witness:
  "(\<exists>e'. Start 3 Background (el new_world) = Done (None, e') \<and> state e' = StateCandidate \<and> gos e' = [Go_startAcquire]) \<and>
   (\<exists>e'. Start 3 Background ((monitored_leader ConnectionStatusConnected)\<lparr>ctx := None\<rparr>) =
      Done (Some (WrapError ''failed to start connection monitor'' (Sentinel ErrAlreadyStarted)), e'))"
proof
  show "\<exists>e'. Start 3 Background (el new_world) = Done (None, e') \<and> state e' = StateCandidate \<and> gos e' = [Go_startAcquire]"
    using Start_behaviour [of "el new_world" Background 3]
    by (simp add: new_world_def init_election_def running_def monitor_used_def Background_def) blast
  show "\<exists>e'. Start 3 Background ((monitored_leader ConnectionStatusConnected)\<lparr>ctx := None\<rparr>) =
      Done (Some (WrapError ''failed to start connection monitor'' (Sentinel ErrAlreadyStarted)), e')"
    using Start_behaviour [of "(monitored_leader ConnectionStatusConnected)\<lparr>ctx := None\<rparr>" Background 3]
    by (simp add: monitored_leader_def demo_leader_def init_election_def running_def monitor_used_def mon_defs Background_def) blast
qed

subsection \<open>Stopping\<close>

lemma can_log_cancel [simp]: "can_log c (contexts (cancel_ctx d e)) = can_log c (contexts e)"
  by (auto simp: cancel_ctx_def can_log_def nth_list_update split: option.splits)

text \<open>The instance after the first, locked part of \<open>Stop\<close> and after its monitor is stopped.\<close>

definition stopped :: "int \<Rightarrow> kvElection \<Rightarrow> kvElection" where
  "stopped now e = stop_monitor (Unlock (set_stopped now (e\<lparr>mu := True\<rparr>)))"

lemma stopped_simps [simp]:
  "\<not> isLeader (stopped now e)" "state (stopped now e) = StateStopped" "\<not> mu (stopped now e)"
  "ctx (stopped now e) = ctx e" "cancel (stopped now e) = cancel e" "cfg (stopped now e) = cfg e" "key (stopped now e) = key e"
  "onDemote (stopped now e) = onDemote e" "demoteCalls (stopped now e) = demoteCalls e"
  "contexts (stopped now e) = contexts (cancel_ctx (cancel e) (e\<lparr>mu := True\<rparr>))"
  "log_ok (stopped now e) = log_ok e" "revision (stopped now e) = revision e" "token (stopped now e) = token e"
  "gos (stopped now e) = gos e" "connectionMonitor (stopped now e) = map_option (\<lambda>m. snd (mon_Stop m)) (connectionMonitor e)"
  by (simp_all add: stopped_def stop_monitor_def Unlock_def log_ok_def)

lemma Stop_begin_outcome:
  "\<not> mu e \<Longrightarrow> log_ok e \<Longrightarrow> Stop_begin now e = Done (Inr (isLeader e), stopped now e)"
  using log_ok_ctx [of e] by (auto simp: Stop_begin_def Lock_def Unlock_def log_then_eq log_ok_def stopped_def Let_def)

text \<open>The callbacks a \<open>Stop\<close> calls at its end: the one registered then, if the instance led at the call.\<close>

definition stop_calls :: "bool \<Rightarrow> kvElection \<Rightarrow> callback list" where
  "stop_calls wasLeader e = (case onDemote e of Some cb \<Rightarrow> if wasLeader then [cb] else [] | None \<Rightarrow> [])"

lemma Stop_end_outcome: "log_ok e \<Longrightarrow> Stop_end b e = Done (None, e\<lparr>demoteCalls := demoteCalls e @ stop_calls b e\<rparr>)"
  by (simp add: Stop_end_def stop_calls_def log_then_eq log_ok_def split: option.split)

lemma Stop_outcome:
  assumes "\<not> mu e" "log_ok e" "log_ok (d (stopped now e))"
  shows "Stop d now e = Done (None, (d (stopped now e))\<lparr>demoteCalls := demoteCalls (d (stopped now e)) @ stop_calls (isLeader e) (d (stopped now e))\<rparr>)"
  using assms by (simp add: Stop_def Stop_begin_outcome Stop_end_outcome)

lemma stop_calls_stopped [simp]: "stop_calls b (stopped now e) = stop_calls b e"
  by (simp add: stop_calls_def)

lemma Stop_id:
  "\<not> mu e \<Longrightarrow> log_ok e \<Longrightarrow>
     Stop id now e = Done (None, (stopped now e)\<lparr>demoteCalls := demoteCalls e @ stop_calls (isLeader e) e\<rparr>)"
  by (simp add: Stop_outcome)

lemma stopped_ctx_done:
  assumes "el_inv e" "ctx e = Some i"
  shows "ctx_Err (get_ctx (stopped now e) i) \<noteq> None"
  using assms by (auto simp: el_inv_def get_ctx_def cancel_ctx_def)



lemma StopWithContext_begin_outcome:
  "\<not> mu e \<Longrightarrow> ctx e \<noteq> None \<Longrightarrow> StopWithContext_begin now e = Done (Inr (isLeader e), stopped now e)"
  by (auto simp: StopWithContext_begin_def Lock_def stopped_def)

lemma StopWithContext_again:
  "ctx (el w) = None \<Longrightarrow> \<not> mu (el w) \<Longrightarrow>
     StopWithContext kv during now c opts wt dw w = Done (Some (Sentinel ErrAlreadyStopped), w)"
  by (simp add: StopWithContext_def StopWithContext_begin_def Lock_def Unlock_Lock)

text \<open>Calling the callback \<open>cb\<close> at the end of a \<open>StopWithContext\<close>: in the call, or in a goroutine of its own.\<close>

definition call_demote :: "StopOptions \<Rightarrow> bool \<Rightarrow> kvElection \<Rightarrow> kvElection" where
  "call_demote opts wasLeader e =
     (case onDemote e of
        Some cb \<Rightarrow>
          if \<not> wasLeader then e
          else if WaitForDemote opts then e\<lparr>demoteCalls := demoteCalls e @ [cb]\<rparr> else go (Go_onDemote cb) e
      | None \<Rightarrow> e)"

lemma call_demote_simps [simp]:
  "ctx (call_demote opts b e) = ctx e" "mu (call_demote opts b e) = mu e"
  by (simp_all add: call_demote_def go_def split: option.split)

lemma stop_finish_outcome:
  assumes "\<not> mu (el w)" "ctx_corr c \<noteq> Some CorrOther"
  shows "\<exists>err. stop_finish kv c opts t wasLeader dw w = Done (err,
    w\<lparr>el := call_demote opts wasLeader ((el w)\<lparr>ctx := None\<rparr>),
      store := (if DeleteKey opts \<and> wasLeader then snd (Delete kv (key (el w)) (store w)) else store w)\<rparr>) \<and>
    (dw = WaitDone \<longrightarrow> err = None)"
proof -
  have "Unlock ((el w)\<lparr>mu := True, ctx := None\<rparr>) = (el w)\<lparr>ctx := None\<rparr>"
    using assms(1) by (cases "el w") (simp add: Unlock_def)
  with assms show ?thesis
    by (cases "onDemote (el w)"; cases wasLeader; cases "WaitForDemote opts")
      (simp_all add: stop_finish_def Lock_def and_then_logFields call_demote_def Let_def)
qed

lemma StopWithContext_outcome:
  assumes "\<not> mu (el w)" "ctx (el w) \<noteq> None" "ctx_corr c \<noteq> Some CorrOther"
    and w1: "w1 = during (w\<lparr>el := stopped now (el w)\<rparr>)" "\<not> mu (el w1)"
  shows "\<exists>err. StopWithContext kv during now c opts wt dw w = Done (err,
      if wt = WaitDone then
        w1\<lparr>el := call_demote opts (isLeader (el w)) ((el w1)\<lparr>ctx := None\<rparr>),
           store := (if DeleteKey opts \<and> isLeader (el w) then snd (Delete kv (key (el w1)) (store w1)) else store w1)\<rparr>
      else w1) \<and> (wt \<noteq> WaitDone \<longrightarrow> err \<noteq> None) \<and> (wt = WaitDone \<and> dw = WaitDone \<longrightarrow> err = None)"
proof (cases "wt = WaitDone")
  case True
  with assms show ?thesis
    using stop_finish_outcome [OF w1(2) assms(3), of kv opts "stop_timeout now c opts" "isLeader (el w)" dw]
    by (simp add: StopWithContext_def StopWithContext_begin_outcome Let_def)
next
  case False
  with assms show ?thesis
    by (cases wt) (simp_all add: StopWithContext_def StopWithContext_begin_outcome and_then_logFields Let_def)
qed

text \<open>
  C20: \<open>StopWithContext\<close> of a started instance. When its wait for the goroutines begins the instance is
  stopped: no leader, state STOPPED, its context done. Let anything happen to the instance and the store
  during the wait that leaves the lock free. If the wait sees the goroutines end, the call then forgets
  the context, deletes the key exactly if the instance led at the call and that was asked for (whatever
  entry the key has by then), calls the callback registered then exactly if the instance led at the call,
  and changes nothing else: the instance is left stopped if the wait left it so, and leader or follower if
  an attempt under way made it that. A second call is refused with ErrAlreadyStopped. If the wait times
  out or the caller's context ends, the call returns an error and neither deletes the key nor calls the
  callback.
\<close>

theorem StopWithContext_behaviour:
  assumes "el_inv (el w)" "ctx (el w) = Some i" "ctx_corr c \<noteq> Some CorrOther"
  shows "\<exists>s. \<not> isLeader s \<and> state s = StateStopped \<and> \<not> mu s \<and> ctx_Err (get_ctx s i) \<noteq> None \<and> demoteCalls s = demoteCalls (el w) \<and> key s = key (el w) \<and>
    (\<forall>during w1. w1 = during (w\<lparr>el := s\<rparr>) \<and> \<not> mu (el w1) \<longrightarrow>
      (\<exists>err w'. StopWithContext kv during now c opts wt dw w = Done (err, w') \<and>
        (if wt = WaitDone
         then el w' = call_demote opts (isLeader (el w)) ((el w1)\<lparr>ctx := None\<rparr>) \<and>
           store w' = (if DeleteKey opts \<and> isLeader (el w) then snd (Delete kv (key (el w1)) (store w1)) else store w1) \<and>
           (\<forall>d later. StopWithContext kv d later c opts wt dw w' = Done (Some (Sentinel ErrAlreadyStopped), w'))
         else err \<noteq> None \<and> w' = w1)))"
proof (rule exI [of _ "stopped now (el w)"], intro conjI allI impI)
  fix during :: "'a world \<Rightarrow> 'a world" and w1 :: "'a world"
  assume "w1 = during (w\<lparr>el := stopped now (el w)\<rparr>) \<and> \<not> mu (el w1)"
  then have w1: "w1 = during (w\<lparr>el := stopped now (el w)\<rparr>)" "\<not> mu (el w1)" by blast+
  have "\<not> mu (el w)" "ctx (el w) \<noteq> None" using assms(1,2) by (simp_all add: el_inv_def)
  from StopWithContext_outcome [where during = during, OF this assms(3) w1, of kv opts wt dw]
  obtain err where o: "StopWithContext kv during now c opts wt dw w = Done (err,
      if wt = WaitDone then
        w1\<lparr>el := call_demote opts (isLeader (el w)) ((el w1)\<lparr>ctx := None\<rparr>),
           store := (if DeleteKey opts \<and> isLeader (el w) then snd (Delete kv (key (el w1)) (store w1)) else store w1)\<rparr>
      else w1)" "wt \<noteq> WaitDone \<longrightarrow> err \<noteq> None" by (elim exE conjE)
  show "\<exists>err w'. StopWithContext kv during now c opts wt dw w = Done (err, w') \<and>
        (if wt = WaitDone
         then el w' = call_demote opts (isLeader (el w)) ((el w1)\<lparr>ctx := None\<rparr>) \<and>
           store w' = (if DeleteKey opts \<and> isLeader (el w) then snd (Delete kv (key (el w1)) (store w1)) else store w1) \<and>
           (\<forall>d later. StopWithContext kv d later c opts wt dw w' = Done (Some (Sentinel ErrAlreadyStopped), w'))
         else err \<noteq> None \<and> w' = w1)"
    by (intro exI conjI, rule o(1)) (use o(2) w1(2) in \<open>simp add: StopWithContext_again\<close>)
qed (use stopped_ctx_done [OF assms(1,2), of now] in simp_all)

theorem StopWithContext_behaviour_witness:
  "\<exists>err w'. StopWithContext MockKeyValueAdapter id 9 Background \<lparr>DeleteKey = True, WaitForDemote = False, Timeout = 0\<rparr> WaitDone WaitDone
      (demo_world demo_value) = Done (err, w') \<and> ctx (el w') = None \<and>
    store w' = snd (Delete MockKeyValueAdapter (key (el (demo_world demo_value))) (store (demo_world demo_value)))"
proof -
  let ?w = "demo_world demo_value" and ?o = "\<lparr>DeleteKey = True, WaitForDemote = False, Timeout = 0\<rparr>"
  have "el_inv (el ?w)" "ctx (el ?w) = Some 0" "ctx_corr Background \<noteq> Some CorrOther" "isLeader (el ?w)"
    by (simp_all add: demo_world_def demo_leader_def init_election_def el_inv_def Background_def)
  with StopWithContext_behaviour [of ?w 0 Background MockKeyValueAdapter 9 ?o WaitDone WaitDone]
  obtain s where s: "\<not> mu s" "key s = key (el ?w)" "\<And>during w1. w1 = during (?w\<lparr>el := s\<rparr>) \<and> \<not> mu (el w1) \<Longrightarrow>
      \<exists>err w'. StopWithContext MockKeyValueAdapter during 9 Background ?o WaitDone WaitDone ?w = Done (err, w') \<and>
        el w' = call_demote ?o True ((el w1)\<lparr>ctx := None\<rparr>) \<and> store w' = snd (Delete MockKeyValueAdapter (key (el w1)) (store w1))"
    by simp metis
  from s(3) [of "?w\<lparr>el := s\<rparr>" id] s(1,2)
  obtain err w' where "StopWithContext MockKeyValueAdapter id 9 Background ?o WaitDone WaitDone ?w = Done (err, w')"
      "el w' = call_demote ?o True (s\<lparr>ctx := None\<rparr>)" "store w' = snd (Delete MockKeyValueAdapter (key (el ?w)) (store ?w))"
    by auto
  then show ?thesis by (intro exI [of _ err] exI [of _ w']) simp
qed

text \<open>
  An instance with a connection monitor cannot be started a second time: the monitor keeps its
  context when it is stopped, so after a successful \<open>Start\<close> and a \<open>Stop\<close> every further \<open>Start\<close> fails with
  the monitor's ErrAlreadyStarted, wrapped, and leaves the instance stopped.
\<close>

theorem restart_with_monitor_fails:
  assumes "el_inv e" "connectionMonitor e = Some m" "mon_ctx m" "log_ok e" "ctx e = Some i"
  shows "\<exists>e1 e2. Stop id now e = Done (None, e1) \<and>
    Start later parent e1 = Done (Some (WrapError ''failed to start connection monitor'' (Sentinel ErrAlreadyStarted)), e2) \<and>
    state e2 = StateStopped"
proof -
  let ?e1 = "(stopped now e)\<lparr>demoteCalls := demoteCalls e @ stop_calls (isLeader e) e\<rparr>"
  have s: "Stop id now e = Done (None, ?e1)" using Stop_id assms(1,4) by (simp add: el_inv_def)
  have r: "ctx_Err (get_ctx (?e1\<lparr>mu := True\<rparr>) i) \<noteq> None"
    using stopped_ctx_done [OF assms(1,5), of now] get_ctx_cong [of "?e1\<lparr>mu := True\<rparr>" "stopped now e" i] by simp
  have "mon_ctx (snd (mon_Stop m))" using assms(3) by (simp add: mon_Stop_keeps_ctx)
  then have "fst (mon_Start (snd (mon_Stop m))) = Some (Sentinel ErrAlreadyStarted)" by (simp add: mon_Start_def)
  with r have "\<exists>e2. Start later parent ?e1 =
      Done (Some (WrapError ''failed to start connection monitor'' (Sentinel ErrAlreadyStarted)), e2) \<and> state e2 = StateStopped"
    using assms(2,5) by (auto simp: Start_def Lock_def Unlock_def Let_def)
  with s show ?thesis by blast
qed

theorem restart_with_monitor_fails_witness:
  "\<exists>e1 e2. Stop id 9 (monitored_leader ConnectionStatusConnected) = Done (None, e1) \<and>
    Start 10 Background e1 = Done (Some (WrapError ''failed to start connection monitor'' (Sentinel ErrAlreadyStarted)), e2) \<and>
    state e2 = StateStopped"
proof -
  obtain m where m: "connectionMonitor (monitored_leader ConnectionStatusConnected) = Some m" "mon_ctx m"
    by (simp add: monitored_leader_def mon_defs)
  have "el_inv (monitored_leader ConnectionStatusConnected)" "ctx (monitored_leader ConnectionStatusConnected) = Some 0"
    by (simp_all add: monitored_leader_def demo_leader_def init_election_def el_inv_def)
  from restart_with_monitor_fails [OF this(1) m monitored_leader_simps(1) this(2)] show ?thesis .
qed

subsection \<open>Two races\<close>

lemma mock_attempt_vacant:
  assumes "mock_ok (store w)" "\<not> failCreate (store w)" "data (store w) (key (el w)) = None" "log_ok (el w)" "\<not> mu (el w)"
  shows "\<exists>w'. attemptAcquire uuid MockKeyValueAdapter now w = Some (Done (None, w')) \<and> isLeader (el w') \<and>
    state (el w') = StateLeader \<and> ctx (el w') = ctx (el w) \<and> contexts (el w') = contexts (el w)"
  using assms
  by (subst attemptAcquire.simps)
    (simp add: MockKeyValueAdapter_def mock_Create_def mock_ok_def acquire_won_Done Let_def)

text \<open>
  C29: An attempt that is under way when \<open>Stop\<close> runs is not called off: if the key is vacant when its
  \<open>Create\<close> reaches the store, the stopped instance becomes leader and reports state LEADER although its
  context is done.
\<close>

theorem stopped_instance_leads:
  assumes "el_inv e" "log_ok e" "ctx e = Some i"
    and "mock_ok s" "\<not> failCreate s" "data s (key e) = None"
  shows "\<exists>e' w'. Stop id now e = Done (None, e') \<and>
    attemptAcquire uuid MockKeyValueAdapter later \<lparr>el = e', store = s, uuids = n\<rparr> = Some (Done (None, w')) \<and>
    isLeader (el w') \<and> state (el w') = StateLeader \<and> ctx_Err (get_ctx (el w') i) \<noteq> None"
proof -
  let ?e = "(stopped now e)\<lparr>demoteCalls := demoteCalls e @ stop_calls (isLeader e) e\<rparr>"
  have s: "Stop id now e = Done (None, ?e)" using Stop_id assms(1,2) by (simp add: el_inv_def)
  have "log_ok ?e" using assms(2) by (simp add: log_ok_def)
  then obtain w' where w': "attemptAcquire uuid MockKeyValueAdapter later \<lparr>el = ?e, store = s, uuids = n\<rparr> = Some (Done (None, w'))"
    "isLeader (el w')" "state (el w') = StateLeader" "contexts (el w') = contexts ?e"
    using mock_attempt_vacant [of "\<lparr>el = ?e, store = s, uuids = n\<rparr>" uuid later] assms(4-6) by auto
  have "get_ctx (el w') i = get_ctx (stopped now e) i" using w'(4) by (intro get_ctx_cong) simp
  with s w' stopped_ctx_done [OF assms(1,3), of now] show ?thesis by auto
qed

theorem stopped_instance_leads_witness:
  "\<exists>e' w'. Stop id 9 demo_candidate = Done (None, e') \<and>
    attemptAcquire demo_uuid MockKeyValueAdapter 10 \<lparr>el = e', store = NewMockKeyValue, uuids = 0\<rparr> = Some (Done (None, w')) \<and>
    isLeader (el w') \<and> state (el w') = StateLeader \<and> ctx_Err (get_ctx (el w') 0) \<noteq> None"
  by (rule stopped_instance_leads)
    (simp_all add: demo_candidate_def init_election_def el_inv_def log_ok_def can_log_def Background_def NewMockKeyValue_def mock_ok_def)

lemma mock_attempt_taken:
  assumes "mock_ok (store w)" "data (store w) (key (el w)) = Some me" "\<not> wants_takeover (cfg (el w))" "log_ok (el w)"
  shows "\<exists>err w'. attemptAcquire uuid MockKeyValueAdapter now w = Some (Done (Some err, w')) \<and>
    same_but_metrics (el w) (el w') \<and> store w' = store w"
proof -
  have "same_but_metrics (el w) (el (record_failed err (w\<lparr>uuids := n\<rparr>)))" for err n
    by (simp add: record_failed_def recordFailure_def recordAcquireAttempt_def observe_eq same_but_metrics_def)
  with assms show ?thesis
    by (subst attemptAcquire.simps)
      (auto simp: MockKeyValueAdapter_def mock_Create_def mock_ok_def acquire_failed_Done record_failed_def Let_def)
qed

lemma retry_loop_taken:
  assumes "n + r = maxRetries + 1" "0 < n" "mock_ok (store w)" "data (store w) (key (el w)) = Some me"
    and "\<not> wants_takeover (cfg (el w))" "loop_ctx i (el w)" "\<not> ctx_done (Some i) w"
  shows "\<exists>w'. retry_loop uuid MockKeyValueAdapter (\<lambda>_ x. x) clk (Some i) n r w = Some (Done w') \<and>
    \<not> isLeader (el w') \<and> state (el w') = StateFollower \<and> demoteCalls (el w') = demoteCalls (el w) \<and> store w' = store w"
  using assms
proof (induction n arbitrary: r w)
  case (Suc n)
  have lo: "log_ok (el w)" using Suc.prems(6) by (simp add: loop_ctx_def)
  obtain err w1 where a: "attemptAcquire uuid MockKeyValueAdapter (clk r) w = Some (Done (Some err, w1))"
    "same_but_metrics (el w) (el w1)" "store w1 = store w"
    using mock_attempt_taken [OF Suc.prems(3,4,5) lo] by blast
  let ?w2 = "record_failed err w1"
  have "same_but_metrics (el w1) (el ?w2)"
    by (simp add: record_failed_def recordFailure_def recordAcquireAttempt_def observe_eq same_but_metrics_def)
  then have s2: "same_but_metrics (el w) (el ?w2)" using a(2) same_but_metrics_trans by blast
  note d = same_but_metricsD [OF s2]
  have st: "store ?w2 = store w" using a(3) by (simp add: record_failed_def)
  have lc: "loop_ctx i (el ?w2)" using loop_ctx_same [OF s2] Suc.prems(6) by simp
  show ?case
  proof (cases "r = maxRetries")
    case True
    have "follow (clk r) ?w2 = Done (?w2\<lparr>el := demoted (clk r) (el ?w2)\<rparr>)"
      using lc by (simp add: follow_def becomeFollower_outcome loop_ctx_def)
    then have "retry_loop uuid MockKeyValueAdapter (\<lambda>_ x. x) clk (Some i) (Suc n) r w = Some (Done (?w2\<lparr>el := demoted (clk r) (el ?w2)\<rparr>))"
      using Suc.prems(7) a(1) True lc by (simp add: Let_def log_then_loop_ctx)
    moreover have "demoteCalls (el ?w2) = demoteCalls (el w)" using d by simp
    ultimately show ?thesis using st
      by (intro exI [of _ "?w2\<lparr>el := demoted (clk r) (el ?w2)\<rparr>"] conjI) (assumption | simp)+
  next
    case False
    then have n: "n + (r + 1) = maxRetries + 1" "0 < n" using Suc.prems(1) by simp_all
    have "\<not> ctx_done (Some i) ?w2" using Suc.prems(7) d by (simp add: ctx_done_def)
    then obtain w' where w': "retry_loop uuid MockKeyValueAdapter (\<lambda>_ x. x) clk (Some i) n (r + 1) ?w2 = Some (Done w')"
      "\<not> isLeader (el w')" "state (el w') = StateFollower" "demoteCalls (el w') = demoteCalls (el ?w2)" "store w' = store ?w2"
      using Suc.IH [OF n, of ?w2] Suc.prems(3-5) st d lc by auto
    have "\<exists>fs. logWithContext (el ?w2) (Some i) = Done fs"
      using lc logFields_cases [of "el ?w2" "get_ctx (el ?w2) i"] loop_ctx_corr [OF lc] by (auto simp: logWithContext_def)
    then have "retry_loop uuid MockKeyValueAdapter (\<lambda>_ x. x) clk (Some i) (Suc n) r w = Some (Done w')"
      using Suc.prems(7) a(1) False w'(1) by (auto simp: Let_def)
    moreover have "demoteCalls (el ?w2) = demoteCalls (el w)" using d by simp
    ultimately show ?thesis using w'(2-5) st by (intro exI [of _ w'] conjI) (assumption | simp)+
  qed
qed simp

text \<open>
  C30: A round of retries that is still running when the instance has become leader by another one
  ends that leadership: its four attempts fail because the key is taken by this very instance, and
  then it makes the instance a follower, without a callback and with the own entry left in the store.
  Two rounds at once do occur, since the watch event for a deleted key and the periodic check each
  start one.
\<close>

theorem retry_ends_own_leadership:
  assumes "leading i w" "\<not> ctx_done (Some i) w" "\<not> wants_takeover (cfg (el w))"
    and "mock_ok (store w)" "mock_contents (store w) (key (el w)) = Some (v, revision (el w))"
  shows "\<exists>w'. attemptAcquireWithRetry uuid MockKeyValueAdapter id (\<lambda>_ x. x) clk (Some i) w = Some (Done w') \<and>
    isLeader (el w) \<and> \<not> isLeader (el w') \<and> state (el w') = StateFollower \<and>
    demoteCalls (el w') = demoteCalls (el w) \<and> store w' = store w"
proof -
  obtain me where me: "data (store w) (key (el w)) = Some me" using assms(5) by (auto simp: mock_contents_def)
  have lc: "loop_ctx i (el w)" "isLeader (el w)" using assms(1) by (simp_all add: leading_def)
  obtain w' where w': "retry_loop uuid MockKeyValueAdapter (\<lambda>_ x. x) clk (Some i) (maxRetries + 1) 0 w = Some (Done w')"
    "\<not> isLeader (el w')" "state (el w') = StateFollower" "demoteCalls (el w') = demoteCalls (el w)" "store w' = store w"
    using retry_loop_taken [of "maxRetries + 1" 0 w me i uuid clk] assms(2-4) me lc(1) by auto
  have "\<exists>fs. logWithContext (el w) (Some i) = Done fs"
    using logFields_cases [of "el w" "get_ctx (el w) i"] loop_ctx_corr [OF lc(1)] by (auto simp: logWithContext_def)
  with w' lc(2) show ?thesis by (auto simp: attemptAcquireWithRetry_def)
qed

theorem retry_ends_own_leadership_witness:
  "\<exists>w'. attemptAcquireWithRetry demo_uuid MockKeyValueAdapter id (\<lambda>_ x. x) (\<lambda>i. 0) (Some 0) (demo_world demo_value) = Some (Done w') \<and>
    isLeader (el (demo_world demo_value)) \<and> \<not> isLeader (el w') \<and> state (el w') = StateFollower \<and>
    demoteCalls (el w') = demoteCalls (el (demo_world demo_value)) \<and> store w' = store (demo_world demo_value)"
proof (rule retry_ends_own_leadership)
  show "leading 0 (demo_world demo_value)" by (simp add: leading_def demo_world_running)
  show "\<not> ctx_done (Some 0) (demo_world demo_value)" "\<not> wants_takeover (cfg (el (demo_world demo_value)))"
    by (simp_all add: ctx_done_def get_ctx_def demo_world_def demo_leader_def init_election_def Background_def wants_takeover_def)
  show "mock_ok (store (demo_world demo_value))" by (rule demo_world_mock)
  show "mock_contents (store (demo_world demo_value)) (key (el (demo_world demo_value))) = Some (demo_value, revision (el (demo_world demo_value)))"
    by (simp add: demo_world_entry)
qed

end
