(* ===== verification/Prometheus.thy ===== *)
theory Prometheus
  imports Lifecycle Go_Float
begin

text \<open>
  \<open>leader/metrics.go\<close>: the Prometheus implementation of the \<open>Metrics\<close> interface. The client library is
  a parameter; documented of it is that \<open>With\<close> panics unless the labels passed are exactly the declared
  ones, with valid UTF-8 values. The calls an instance makes are shown to be well typed in that sense.
\<close>

subsection \<open>The library's interface\<close>

datatype vec_kind = GaugeVec | CounterVec | HistogramVec

text \<open>Options and variable labels of a vector; buckets as the arguments of \<open>ExponentialBuckets\<close>.\<close>

record vec_opts =
  vo_Kind :: vec_kind
  vo_Name :: string
  vo_Help :: string
  vo_Buckets :: "(float64 \<times> float64 \<times> nat) option"
  vo_Labels :: "string list"

datatype vec_op = VSet float64 | VInc | VObserve float64

text \<open>
  \<open>'v\<close> is a vector, \<open>'r\<close> a registry with the state of its vectors. \<open>With_op v ls op\<close> is \<open>v.With(ls)\<close>
  followed by \<open>Set\<close>, \<open>Inc\<close> or \<open>Observe\<close>.
\<close>

record ('v, 'r) prom =
  NewVec :: "vec_opts \<Rightarrow> 'v"
  MustRegister :: "'v list \<Rightarrow> 'r \<Rightarrow> 'r outcome"
  With_op :: "'v \<Rightarrow> labels \<Rightarrow> vec_op \<Rightarrow> 'r \<Rightarrow> 'r outcome"

subsection \<open>The implementation\<close>

record 'v prometheusMetrics =
  pm_isLeader :: 'v
  pm_connectionStatus :: 'v
  pm_transitionsTotal :: 'v
  pm_failuresTotal :: 'v
  pm_acquireAttemptsTotal :: 'v
  pm_tokenValidationFailures :: 'v
  pm_heartbeatDuration :: 'v
  pm_leaderDuration :: 'v

datatype 'v MetricsImpl = noOpMetrics | PrometheusMetrics "'v prometheusMetrics"

definition gauge_opts :: "string \<Rightarrow> string \<Rightarrow> vec_opts" where
  "gauge_opts name help =
     \<lparr>vo_Kind = GaugeVec, vo_Name = name, vo_Help = help, vo_Buckets = None, vo_Labels = [''role'', ''instance_id'', ''bucket'']\<rparr>"

definition counter_opts :: "string \<Rightarrow> string \<Rightarrow> string list \<Rightarrow> vec_opts" where
  "counter_opts name help extra =
     \<lparr>vo_Kind = CounterVec, vo_Name = name, vo_Help = help, vo_Buckets = None,
      vo_Labels = [''role'', ''instance_id'', ''bucket''] @ extra\<rparr>"

definition histogram_opts :: "string \<Rightarrow> string \<Rightarrow> float64 \<times> float64 \<times> nat \<Rightarrow> string list \<Rightarrow> vec_opts" where
  "histogram_opts name help bks extra =
     \<lparr>vo_Kind = HistogramVec, vo_Name = name, vo_Help = help, vo_Buckets = Some bks,
      vo_Labels = [''role'', ''instance_id'', ''bucket''] @ extra\<rparr>"

definition new_vectors :: "('v, 'r) prom \<Rightarrow> 'v prometheusMetrics" where
  "new_vectors lib =
     \<lparr>pm_isLeader = NewVec lib (gauge_opts ''election_is_leader'' ''1 if current instance is leader, 0 otherwise''),
      pm_connectionStatus = NewVec lib (gauge_opts ''election_connection_status'' ''NATS connection status (1=connected, 0=disconnected)''),
      pm_transitionsTotal = NewVec lib (counter_opts ''election_transitions_total'' ''Total number of state transitions''
        [''from_state'', ''to_state'']),
      pm_failuresTotal = NewVec lib (counter_opts ''election_failures_total'' ''Total number of election failures'' [''error_type'']),
      pm_acquireAttemptsTotal = NewVec lib (counter_opts ''election_acquire_attempts_total'' ''Total election acquisition attempts''
        [''status'']),
      pm_tokenValidationFailures = NewVec lib (counter_opts ''election_token_validation_failures_total''
        ''Token validation failures (indicates stale leaders)'' []),
      pm_heartbeatDuration = NewVec lib (histogram_opts ''election_heartbeat_duration_seconds''
        ''Time taken for heartbeat operations'' (round64 (1/1000), Val 2, 10) [''status'']),
      pm_leaderDuration = NewVec lib (histogram_opts ''election_leader_duration_seconds''
        ''How long instances hold leadership'' (Val 1, Val 2, 12) [])\<rparr>"

definition NewPrometheusMetrics :: "('v, 'r) prom \<Rightarrow> 'r option \<Rightarrow> ('v MetricsImpl \<times> 'r option) outcome" where
  "NewPrometheusMetrics lib registry =
     (case registry of
        None \<Rightarrow> Done (noOpMetrics, None)
      | Some r \<Rightarrow>
          (let m = new_vectors lib in
           and_then (MustRegister lib
               [pm_isLeader m, pm_connectionStatus m, pm_transitionsTotal m, pm_failuresTotal m, pm_acquireAttemptsTotal m,
                pm_tokenValidationFailures m, pm_heartbeatDuration m, pm_leaderDuration m] r)
             (\<lambda>r. Done (PrometheusMetrics m, Some r))))"

text \<open>\<open>Duration.Seconds\<close>: whole seconds and the rest, each converted.\<close>

definition Duration_Seconds :: "duration \<Rightarrow> float64" where
  "Duration_Seconds d =
     (let sec = quot d Second; nsec = d - sec * Second
      in f_add (f_of_int sec) (round64 (of_int nsec / 1000000000)))"

definition gauge_value :: "bool \<Rightarrow> float64" where
  "gauge_value b = Val (if b then 1 else 0)"

text \<open>The methods of the two implementations, by the call.\<close>

fun Metrics_call :: "('v, 'r) prom \<Rightarrow> 'v MetricsImpl \<Rightarrow> metric \<Rightarrow> 'r \<Rightarrow> 'r outcome" where
  "Metrics_call lib noOpMetrics call r = Done r"
| "Metrics_call lib (PrometheusMetrics m) (SetIsLeader v ls) r = With_op lib (pm_isLeader m) ls (VSet (gauge_value v)) r"
| "Metrics_call lib (PrometheusMetrics m) (SetConnectionStatus v ls) r = With_op lib (pm_connectionStatus m) ls (VSet (gauge_value v)) r"
| "Metrics_call lib (PrometheusMetrics m) (IncTransitions ls) r = With_op lib (pm_transitionsTotal m) ls VInc r"
| "Metrics_call lib (PrometheusMetrics m) (IncFailures ls) r = With_op lib (pm_failuresTotal m) ls VInc r"
| "Metrics_call lib (PrometheusMetrics m) (IncAcquireAttempts ls) r = With_op lib (pm_acquireAttemptsTotal m) ls VInc r"
| "Metrics_call lib (PrometheusMetrics m) (IncTokenValidationFailures ls) r = With_op lib (pm_tokenValidationFailures m) ls VInc r"
| "Metrics_call lib (PrometheusMetrics m) (ObserveHeartbeatDuration d ls) r =
     With_op lib (pm_heartbeatDuration m) ls (VObserve (Duration_Seconds d)) r"
| "Metrics_call lib (PrometheusMetrics m) (ObserveLeaderDuration d ls) r =
     With_op lib (pm_leaderDuration m) ls (VObserve (Duration_Seconds d)) r"

text \<open>The calls of a run, in order.\<close>

fun Metrics_calls :: "('v, 'r) prom \<Rightarrow> 'v MetricsImpl \<Rightarrow> metric list \<Rightarrow> 'r \<Rightarrow> 'r outcome" where
  "Metrics_calls lib m [] r = Done r"
| "Metrics_calls lib m (call # calls) r = and_then (Metrics_call lib m call r) (Metrics_calls lib m calls)"

subsection \<open>Well-typed calls\<close>

text \<open>
  A call of an instance carries the instance's own role, id and bucket, and for the labels its metric
  adds a value of a fixed finite set.
\<close>

definition base_labels :: "ElectionConfig \<Rightarrow> labels" where
  "base_labels c = [(''role'', Group c), (''instance_id'', InstanceID c), (''bucket'', Bucket c)]"

fun metric_ok :: "ElectionConfig \<Rightarrow> metric \<Rightarrow> bool" where
  "metric_ok c (SetIsLeader v ls) = (ls = base_labels c)"
| "metric_ok c (SetConnectionStatus v ls) = (ls = base_labels c)"
| "metric_ok c (IncTransitions ls) =
     (\<exists>f\<in>set states. \<exists>t\<in>set states. ls = base_labels c @ [(''from_state'', f), (''to_state'', t)])"
| "metric_ok c (IncFailures ls) = (\<exists>t\<in>{''permanent'', ''transient''}. ls = base_labels c @ [(''error_type'', t)])"
| "metric_ok c (IncAcquireAttempts ls) = (\<exists>t\<in>{''success'', ''failed''}. ls = base_labels c @ [(''status'', t)])"
| "metric_ok c (IncTokenValidationFailures ls) = (ls = base_labels c)"
| "metric_ok c (ObserveHeartbeatDuration d ls) = (\<exists>t\<in>{''success'', ''failure''}. ls = base_labels c @ [(''status'', t)])"
| "metric_ok c (ObserveLeaderDuration d ls) = (ls = base_labels c)"

definition minv :: "kvElection \<Rightarrow> bool" where
  "minv e \<longleftrightarrow> state e \<in> set states \<and> (\<forall>m\<in>set (metrics e). metric_ok (cfg e) m)"

lemma labels_eq [simp]: "getMetricsLabels e = base_labels (cfg e)"
  by (simp add: getMetricsLabels_def base_labels_def)

lemma states_simps [simp]:
  "StateInit \<in> set states" "StateCandidate \<in> set states" "StateLeader \<in> set states" "StateFollower \<in> set states"
  "StateStopped \<in> set states"
  by (simp_all add: states_def)

lemma minv_observe [simp]: "metric_ok (cfg e) m \<Longrightarrow> minv (observe m e) = minv e"
  by (auto simp: minv_def observe_eq)

lemma classify_label: "classifyErrorType (Some err) \<in> {''permanent'', ''transient''}"
  using IsTransientError_iff [of err] by (auto simp: classifyErrorType.simps)

lemma minv_record [simp]:
  "minv (recordFailure (classifyErrorType (Some err)) e) = minv e"
  "t \<in> {''success'', ''failed''} \<Longrightarrow> minv (recordAcquireAttempt t e) = minv e"
  "t \<in> {''success'', ''failure''} \<Longrightarrow> minv (observe_heartbeat t tick e) = minv e"
  using classify_label [of err] by (auto simp: recordFailure_def recordAcquireAttempt_def observe_heartbeat_def)

lemma minv_upd [simp]:
  "minv (e\<lparr>leaderID := a\<rparr>) = minv e" "minv (e\<lparr>token := a\<rparr>) = minv e" "minv (e\<lparr>revision := r\<rparr>) = minv e"
  "minv (e\<lparr>lastHeartbeat := t\<rparr>) = minv e" "minv (e\<lparr>healthFailureCount := k\<rparr>) = minv e"
  "minv (e\<lparr>watcherRunning := b\<rparr>) = minv e" "minv (e\<lparr>wg := n\<rparr>) = minv e"
  "minv (e\<lparr>connectionMonitor := m\<rparr>) = minv e" "minv (e\<lparr>dHandler := d\<rparr>) = minv e"
  "minv (e\<lparr>onPromote := c\<rparr>) = minv e" "minv (e\<lparr>onDemote := c\<rparr>) = minv e"
  "minv (e\<lparr>demoteCalls := cs\<rparr>) = minv e" "minv (e\<lparr>mu := b\<rparr>) = minv e" "minv (e\<lparr>ctx := x\<rparr>) = minv e"
  "minv (Unlock e) = minv e" "minv (go g e) = minv e" "minv (cancel_ctx x e) = minv e"
  by (simp_all add: minv_def Unlock_def go_def cancel_ctx_def split: option.split)

subsection \<open>Every operation makes well-typed calls only\<close>

lemma minv_promoted: "minv e \<Longrightarrow> minv (promoted now tok rv e)"
  by (auto simp: minv_def) (auto simp: promoted_def Let_def set_leader_def)

lemma minv_demoted: "minv e \<Longrightarrow> minv (demoted now e)"
  by (cases "leaderStartTime e"; cases "isLeader e"; cases "Metrics (cfg e)") (auto simp: minv_def demoted_def Let_def)

lemma minv_demoted_called: "minv e \<Longrightarrow> minv (demoted_called now e)"
  by (simp add: demoted_called_def minv_demoted)

lemma minv_becomeLeader: "becomeLeader now tok rv e = Done e' \<Longrightarrow> minv e \<Longrightarrow> minv e'"
  by (auto simp: becomeLeader_outcome minv_promoted split: if_splits)

lemma minv_becomeFollower: "becomeFollower now e = Done e' \<Longrightarrow> minv e \<Longrightarrow> minv e'"
  by (auto simp: becomeFollower_outcome minv_demoted split: if_splits)

lemma minv_Start: "Start now parent e = Done (err, e') \<Longrightarrow> minv e \<Longrightarrow> minv e'"
  by (auto simp: Start_def Lock_def Unlock_def minv_def observe_eq go_def Let_def split: if_splits option.splits)

lemma minv_set_stopped: "minv e \<Longrightarrow> minv (set_stopped now e)"
  by (auto simp: minv_def)
    (auto simp: set_stopped_def stop_handler_def recordLeaderDuration_def metric_defs Let_def split: if_splits option.splits)

lemma minv_Stop_begin: "Stop_begin now e = Done (r, e') \<Longrightarrow> minv e \<Longrightarrow> minv e'"
  by (auto simp: Stop_begin_def Lock_def stop_monitor_def log_then_eq Let_def minv_set_stopped split: if_splits)

lemma minv_Stop_end: "Stop_end b e = Done (err, e') \<Longrightarrow> minv e \<Longrightarrow> minv e'"
  by (auto simp: Stop_end_def log_then_eq split: if_splits option.splits)

lemma minv_StopWithContext_begin: "StopWithContext_begin now e = Done (r, e') \<Longrightarrow> minv e \<Longrightarrow> minv e'"
  by (auto simp: StopWithContext_begin_def Lock_def stop_monitor_def minv_set_stopped split: if_splits)

lemma minv_stop_finish: "stop_finish kv c opts t wl dw w = Done (err, w') \<Longrightarrow> minv (el w) \<Longrightarrow> minv (el w')"
  by (auto simp: stop_finish_def Lock_def Let_def split: if_splits option.splits)

lemma minv_acquire_won: "acquire_won now tok rv w = Done (err, w') \<Longrightarrow> minv (el w) \<Longrightarrow> minv (el w')"
  by (auto simp: acquire_won_Done intro!: minv_promoted)

lemma minv_record_failed [simp]: "minv (el (record_failed err w)) = minv (el w)"
  by (simp add: record_failed_def)

lemma minv_acquire_once:
  "acquire_once uuid kv now w = Result (Done (err, w')) \<Longrightarrow> minv (el w) \<Longrightarrow> minv (el w')"
  by (auto simp: acquire_once_def takeover_body_def takeover_result_def acquire_won_Done acquire_failed_Done
      record_failed_def log_then_eq Let_def minv_promoted split: prod.splits sum.splits option.splits if_splits
      dest: minv_becomeLeader)

lemma minv_attemptAcquire:
  assumes "attemptAcquire uuid kv now w = Some y" "y = Done (err, w')" "minv (el w)"
  shows "minv (el w')"
  using assms
proof (induction rule: attemptAcquire_induct)
  case (result w y)
  then show ?case using minv_acquire_once by blast
next
  case (again w w1 y)
  then show ?case using acquire_once_Again_el by metis
qed

lemma minv_follow: "follow now w = Done w' \<Longrightarrow> minv (el w) \<Longrightarrow> minv (el w')"
  by (auto simp: follow_def dest: minv_becomeFollower)

lemma minv_check_payload: "check_payload c p w = Done (r, w') \<Longrightarrow> minv (el w') = minv (el w)"
  by (auto simp: check_payload_def token_mismatch_def log_ctx_eq Let_def split: option.splits json.splits if_splits)

lemma minv_validateToken: "validateToken kv c late w = Done (r, w') \<Longrightarrow> minv (el w') = minv (el w)"
  by (auto simp: validateToken_def Let_def log_ctx_eq split: option.splits if_splits sum.splits prod.splits
      dest!: minv_check_payload)

lemma minv_ValidateTokenOrDemote:
  "ValidateTokenOrDemote kv now c late w = Done (b, w') \<Longrightarrow> minv (el w) \<Longrightarrow> minv (el w')"
  by (auto simp: ValidateTokenOrDemote_def ValidateToken_def validation_failure.handler_Done minv_demoted_called split: if_splits
      dest!: minv_validateToken)

lemma minv_validation_pass: "validation_pass kv c t n w = Done r \<Longrightarrow> minv (el w) \<Longrightarrow> minv (el (loop_world r))"
  by (auto simp: validation_pass_def demote_and_return_def count_validation_failure_def log_then_eq Let_def
      validation_failure.handler_Done minv_demoted_called split: if_splits dest!: minv_validateToken)

lemma minv_heartbeat_failed: "heartbeat_failed kv c t n err w = Done r \<Longrightarrow> minv (el w) \<Longrightarrow> minv (el (loop_world r))"
  by (auto simp: heartbeat_failed_def log_takeover_def with_el_def log_then_eq Let_def
      heartbeat_failure.handler_Done minv_demoted_called split: if_splits prod.splits sum.splits option.splits)

lemma minv_heartbeat_succeeded: "heartbeat_succeeded c t n rv w = Done r \<Longrightarrow> minv (el w) \<Longrightarrow> minv (el (loop_world r))"
  by (auto simp: heartbeat_succeeded_def log_then_eq Let_def split: if_splits)

lemma minv_heartbeat_pass:
  assumes "heartbeat_pass kv c t n w = Done r" "minv (el w)" "ht_mid t = id" "ht_after t = id"
  shows "minv (el (loop_world r))"
proof -
  have u: "minv (el (loop_world r))" if "heartbeat_update kv c t n x = Done r" "minv (el x)" for x
    using that assms(3,4)
    by (auto simp: heartbeat_update_def Let_def split: update_wait.splits prod.splits sum.splits
        dest!: minv_heartbeat_failed minv_heartbeat_succeeded)
  show ?thesis
    using assms(1,2)
    by (auto simp: heartbeat_pass_def with_el_def log_then_eq Let_def health_failure.handler_Done minv_demoted_called
        split: if_splits dest: u)
qed

lemma minv_handleWatchEvent: "handleWatchEvent now entry e = Done e' \<Longrightarrow> minv e \<Longrightarrow> minv e'"
  by (auto simp: handleWatchEvent_def log_then_eq Let_def split: option.splits if_splits sum.splits dest: minv_becomeFollower)

lemma minv_checkKeyAndReelect: "checkKeyAndReelect kv c w = Done w' \<Longrightarrow> minv (el w) \<Longrightarrow> minv (el w')"
  by (auto simp: checkKeyAndReelect_def log_then_eq Let_def split: option.splits if_splits sum.splits prod.splits json.splits)

lemma minv_conn_disconnected: "conn_disconnected now e = Done e' \<Longrightarrow> minv e \<Longrightarrow> minv e'"
  by (auto simp: conn_disconnected_def dh_handleDisconnect_def log_then_eq Let_def split: option.splits if_splits prod.splits)

lemma minv_handleReconnect: "handleReconnect e = Done e' \<Longrightarrow> minv e \<Longrightarrow> minv e'"
  by (auto simp: handleReconnect_def Lock_def log_then_eq Let_def split: option.splits if_splits)

lemma minv_conn_reconnected: "conn_reconnected e = Done e' \<Longrightarrow> minv e \<Longrightarrow> minv e'"
  by (auto simp: conn_reconnected_def Let_def split: option.splits if_splits prod.splits dest: minv_handleReconnect)

lemma minv_conn_closed [simp]: "minv (conn_closed e) = minv e"
  by (simp add: conn_closed_def)

lemma minv_grace: "handleGracePeriodExpired now e = Done e' \<Longrightarrow> minv e \<Longrightarrow> minv e'"
  by (auto simp: handleGracePeriodExpired_outcome minv_demoted_called split: if_splits)

lemma minv_verify_failed: "handleReconnectVerificationFailed now e = Done e' \<Longrightarrow> minv e \<Longrightarrow> minv e'"
  by (auto simp: handleReconnectVerificationFailed_def Lock_def log_then_eq becomeFollower_outcome split: if_splits)

lemma minv_verify: "verifyLeadershipAfterReconnect kv now late w = Done w' \<Longrightarrow> minv (el w) \<Longrightarrow> minv (el w')"
  by (auto simp: verifyLeadershipAfterReconnect_def Lock_def Let_def split: if_splits prod.splits sum.splits option.splits
      dest!: minv_validateToken dest: minv_verify_failed)

lemma minv_callback: "OnPromote fn e = Done e' \<Longrightarrow> minv e \<Longrightarrow> minv e'" "OnDemote fn e = Done e' \<Longrightarrow> minv e \<Longrightarrow> minv e'"
  by (auto simp: OnPromote_def OnDemote_def Lock_def split: if_splits)

lemmas minv_operations =
  minv_Start minv_Stop_begin minv_Stop_end minv_StopWithContext_begin minv_stop_finish minv_attemptAcquire minv_acquire_won minv_follow minv_heartbeat_pass
  minv_ValidateTokenOrDemote minv_validation_pass minv_handleWatchEvent minv_checkKeyAndReelect
  minv_conn_disconnected minv_conn_reconnected minv_grace minv_verify minv_callback

interpretation metric_sys: invariant_system created "step uuid kv" "\<lambda>w. minv (el w)" for uuid kv
proof (unfold_locales, goal_cases)
  case (1 w)
  then show ?case using created_init [of w] by (auto simp: minv_def init_election_def)
next
  case (2 w l w')
  from 2(2) 2(1) show ?case
    by (induction rule: step.induct) (auto dest!: minv_validateToken intro: minv_operations)
qed

subsection \<open>No call panics\<close>

text \<open>
  What the library documents of \<open>With\<close>: it returns if the label names are the declared ones and the
  values are valid UTF-8.
\<close>

definition with_ok :: "('v, 'r) prom \<Rightarrow> bool" where
  "with_ok lib \<longleftrightarrow> (\<forall>opts ls op r. distinct (map fst ls) \<longrightarrow> set (map fst ls) = set (vo_Labels opts) \<longrightarrow>
     list_all (\<lambda>l. valid_utf8 (snd l)) ls \<longrightarrow> (\<exists>r'. With_op lib (NewVec lib opts) ls op r = Done r'))"

definition utf8_config :: "ElectionConfig \<Rightarrow> bool" where
  "utf8_config c \<longleftrightarrow> valid_utf8 (Group c) \<and> valid_utf8 (InstanceID c) \<and> valid_utf8 (Bucket c)"

lemma utf8_values [simp]:
  "valid_utf8 ''permanent''" "valid_utf8 ''transient''" "valid_utf8 ''success''" "valid_utf8 ''failed''" "valid_utf8 ''failure''"
  by code_simp+

lemma utf8_states: "s \<in> set states \<Longrightarrow> valid_utf8 s"
proof -
  have "list_all valid_utf8 states" by code_simp
  then show "s \<in> set states \<Longrightarrow> valid_utf8 s" by (simp add: list_all_iff)
qed

text \<open>Each call passes exactly the labels its vector declares.\<close>

lemma call_returns:
  assumes "with_ok lib" "utf8_config c" "metric_ok c call"
  shows "\<exists>r'. Metrics_call lib (PrometheusMetrics (new_vectors lib)) call r = Done r'"
proof -
  have w: "\<exists>r'. With_op lib (NewVec lib opts) ls op r = Done r'"
    if "distinct (map fst ls)" "set (map fst ls) = set (vo_Labels opts)" "list_all (\<lambda>l. valid_utf8 (snd l)) ls" for opts ls op
    using assms(1) that unfolding with_ok_def by blast
  show ?thesis
    using assms(2,3) utf8_states
    by (cases call)
      (auto simp: new_vectors_def gauge_opts_def counter_opts_def histogram_opts_def base_labels_def utf8_config_def intro!: w)
qed

lemma calls_return:
  assumes "with_ok lib" "utf8_config c" "\<forall>m\<in>set ms. metric_ok c m"
  shows "\<exists>r'. Metrics_calls lib (PrometheusMetrics (new_vectors lib)) ms r = Done r'"
  using assms(3)
proof (induction ms arbitrary: r)
  case (Cons m ms)
  then show ?case using call_returns [OF assms(1,2), of m r] by (auto 0 3)
qed simp

text \<open>
  C31: Whatever an instance does, every metrics call it has made carries its own role, id and bucket and,
  for the labels its metric adds, one of finitely many fixed values; so with a client library that
  behaves as documented and a configuration in valid UTF-8 none of the calls panics.
\<close>

theorem metrics_well_typed:
  assumes "reachable created (step uuid kv) w" "with_ok lib" "utf8_config (cfg (el w))"
    and "NewPrometheusMetrics lib (Some r0) = Done (m, Some r)"
  shows "(\<forall>call\<in>set (metrics (el w)). metric_ok (cfg (el w)) call) \<and> (\<exists>r'. Metrics_calls lib m (metrics (el w)) r = Done r')"
proof -
  have ok: "\<forall>call\<in>set (metrics (el w)). metric_ok (cfg (el w)) call"
    using metric_sys.reachable_inv [OF assms(1)] by (simp add: minv_def)
  moreover have "m = PrometheusMetrics (new_vectors lib)" using assms(4) by (auto simp: NewPrometheusMetrics_def Let_def)
  ultimately show ?thesis using calls_return [OF assms(2,3) ok] by blast
qed

text \<open>A library over the list of the operations performed.\<close>

definition demo_prom :: "(vec_opts, (labels \<times> vec_op) list) prom" where
  "demo_prom = \<lparr>NewVec = (\<lambda>opts. opts), MustRegister = (\<lambda>vs r. Done r),
     With_op = (\<lambda>v ls op r. if distinct (map fst ls) \<and> set (map fst ls) = set (vo_Labels v) \<and> list_all (\<lambda>l. valid_utf8 (snd l)) ls
       then Done (r @ [(ls, op)]) else Panicked)\<rparr>"

definition metered_world :: "MockKeyValue world" where
  "metered_world = \<lparr>el = init_election ((demo_config ''node-1'')\<lparr>Metrics := True\<rparr>) False, store = NewMockKeyValue, uuids = 0\<rparr>"

theorem metrics_well_typed_witness:
  "\<exists>w m r r'. reachable created (step demo_uuid MockKeyValueAdapter) w \<and> metrics (el w) \<noteq> [] \<and>
     NewPrometheusMetrics demo_prom (Some []) = Done (m, Some r) \<and> Metrics_calls demo_prom m (metrics (el w)) r = Done r'"
proof -
  let ?w = "record_failed Canceled metered_world"
  have c: "cfg (el ?w) = (demo_config ''node-1'')\<lparr>Metrics := True\<rparr>" by (simp add: metered_world_def record_failed_def init_election_def)
  have "newKVElection (Inr (\<lambda>b. Inr MockKeyValueAdapter)) False ((demo_config ''node-1'')\<lparr>Metrics := True\<rparr>) =
      Inr (el metered_world, MockKeyValueAdapter)"
  proof -
    have "validateConfig ((demo_config ''node-1'')\<lparr>Metrics := True\<rparr>) = None" by code_simp
    then show ?thesis by (simp add: newKVElection_def metered_world_def)
  qed
  then have "created metered_world" unfolding created_def by blast
  then have "reachable created (step demo_uuid MockKeyValueAdapter) metered_world" by (rule reachable_init)
  then have r: "reachable created (step demo_uuid MockKeyValueAdapter) ?w" by (rule reachable_step) (rule step_record)
  have ok: "with_ok demo_prom" by (simp add: with_ok_def demo_prom_def)
  have u: "utf8_config (cfg (el ?w))" unfolding c by code_simp
  have n: "NewPrometheusMetrics demo_prom (Some []) = Done (PrometheusMetrics (new_vectors demo_prom), Some [])"
    by (simp add: NewPrometheusMetrics_def demo_prom_def)
  have ne: "metrics (el ?w) \<noteq> []" by (simp add: record_failed_def metered_world_def init_election_def metric_defs)
  from metrics_well_typed [OF r ok u n] r n ne show ?thesis by blast
qed

end
