(* ===== verification/Takeover.thy ===== *)
theory Takeover
  imports Lifecycle
begin

text \<open>
  Priority takeover and a leader that runs an attempt. A round of retries may be under way on an
  instance that leads; when its key has gone to another instance of at least its priority, the attempt
  fails but leaves the other entry's revision in the instance, so that its next heartbeat overwrites
  that entry. And the way a follower of higher priority comes to lead: by the second event about a leader.
\<close>

subsection \<open>A follower of higher priority\<close>

lemma mock_takeover_wins:
  assumes "mock_ok (store w)" "mock_up (store w)" "\<not> failGet (store w)" "mock_contents (store w) (key (el w)) = Some (v, r)"
    and "wants_takeover (cfg (el w))" "Unmarshal_payload v = Inr p" "pl_Priority p < Priority (cfg (el w))"
    and "log_ok (el w)" "\<not> mu (el w)" "ascii (uuid (uuids w))" "in_i64 (Priority (cfg (el w)))"
  shows "\<exists>w'. attemptAcquire uuid MockKeyValueAdapter now w = Some (Done (None, w'))"
proof -
  obtain me where me: "data (store w) (key (el w)) = Some me" "me_Value me = v" "me_Rev me = r"
    using assms(4) by (auto simp: mock_contents_def)
  obtain new where new: "Unmarshal_payload (json_Marshal (own_payload (el w) (uuid (uuids w)))) = Inr new"
    using own_payload_decodes [OF assms(11,10)] by blast
  have "log_ok ((el w)\<lparr>revision := n, token := t\<rparr>)" for n t using assms(8) by (simp add: log_ok_def)
  with assms me new show ?thesis
    by (subst attemptAcquire.simps)
      (auto simp: takeover_body_def takeover_result_def MockKeyValueAdapter_def mock_Create_def mock_Get_def mock_Update_def mock_ok_def
        mock_up_def MockEntryAdapter_def log_then_ctx becomeLeader_outcome Let_def)
qed

text \<open>
  C16: How a follower of higher priority takes over. The first event about a new leader only makes it
  known; the second one, the leader's next heartbeat, starts a takeover attempt exactly when the stored
  priority is lower than the own one. That attempt, while the entry is still the one of the event and the
  store answers, makes the follower the leader of what is stored, under a token of its own and with a
  larger revision than any before.
\<close>

theorem watched_takeover:
  assumes "\<not> isLeader (el w)" "log_ok (el w)" "\<not> mu (el w)" "wants_takeover (cfg (el w))" "in_i64 (Priority (cfg (el w)))"
    and "mock_ok (store w)" "mock_up (store w)" "\<not> failGet (store w)" "rev_counter (store w) < max_rev" "\<forall>n. ascii (uuid n)"
    and "Value en1 \<noteq> []" "Unmarshal_payload (Value en1) = Inr p1" "leaderID (el w) \<noteq> pl_ID p1"
    and "Value en2 \<noteq> []" "Unmarshal_payload (Value en2) = Inr p2" "pl_ID p2 = pl_ID p1"
    and "mock_contents (store w) (key (el w)) = Some (Value en2, Revision en2)"
  shows "\<exists>e1 e2. handleWatchEvent t1 (Some en1) (el w) = Done e1 \<and> leaderID e1 = pl_ID p1 \<and> gos e1 = gos (el w) \<and>
    handleWatchEvent t2 (Some en2) e1 = Done e2 \<and>
    (if pl_Priority p2 < Priority (cfg (el w))
     then gos e2 = gos (el w) @ [Go_takeover] \<and>
       (\<exists>w'. takeover_goroutine uuid MockKeyValueAdapter t3 (w\<lparr>el := e2\<rparr>) = Some (Done w') \<and>
          (\<exists>n \<ge> uuids w. won mock_contents (el w) (uuid n) w') \<and> rev_counter (store w) < revision (el w'))
     else gos e2 = gos (el w))"
proof -
  let ?e1 = "(el w)\<lparr>leaderID := pl_ID p1, revision := Revision en1\<rparr>"
  let ?e = "(el w)\<lparr>leaderID := pl_ID p1, revision := Revision en2\<rparr>"
  let ?e2 = "if pl_Priority p2 < Priority (cfg (el w)) then go Go_takeover ?e else ?e"
  have l: "log_ok ?e1" "log_ok ?e" using assms(2) by (simp_all add: log_ok_def)
  have 1: "handleWatchEvent t1 (Some en1) (el w) = Done ?e1"
    using assms(1,2,11-13) by (simp add: handleWatchEvent_def log_then_ctx)
  have 2: "handleWatchEvent t2 (Some en2) ?e1 = Done ?e2"
    using assms(1,4,14-16) l by (auto simp: handleWatchEvent_def wants_takeover_def log_then_eq log_ok_def Let_def)
  have "\<exists>w'. takeover_goroutine uuid MockKeyValueAdapter t3 (w\<lparr>el := go Go_takeover ?e\<rparr>) = Some (Done w') \<and>
          (\<exists>n \<ge> uuids w. won mock_contents (el w) (uuid n) w') \<and> rev_counter (store w) < revision (el w')"
    if lower: "pl_Priority p2 < Priority (cfg (el w))"
  proof -
    let ?w = "w\<lparr>el := go Go_takeover ?e\<rparr>"
    obtain w' where w': "attemptAcquire uuid MockKeyValueAdapter t3 ?w = Some (Done (None, w'))"
      using mock_takeover_wins [of ?w "Value en2" "Revision en2" p2 uuid t3] assms l lower by auto
    have "(\<exists>n \<ge> uuids ?w. won mock_contents (el ?w) (uuid n) w') \<and> rev_counter (store ?w) < revision (el w')"
      using mock.acquire_wins [OF w' refl] assms(5,6,9,10) by auto
    moreover have "won mock_contents (el ?w) = (won mock_contents (el w) :: string \<Rightarrow> MockKeyValue world \<Rightarrow> bool)"
      by (simp add: won_def own_payload_def fun_eq_iff)
    ultimately show ?thesis using w' by (simp add: takeover_goroutine_def)
  qed
  with 1 2 show ?thesis by (intro exI [of _ ?e1] exI [of _ ?e2]) auto
qed

text \<open>A store in which the leader of \<open>demo_entry\<close> leads.\<close>

definition led_store :: MockKeyValue where
  "led_store = snd (mock_Create ''demo-group'' (Value demo_entry) (NewMockKeyValue\<lparr>rev_counter := 3\<rparr>))"

theorem watched_takeover_witness:
  "\<exists>e1 e2 w'. handleWatchEvent 1 (Some demo_entry) takeover_candidate = Done e1 \<and> gos e1 = [] \<and>
    handleWatchEvent 2 (Some demo_entry) e1 = Done e2 \<and> gos e2 = [Go_takeover] \<and>
    takeover_goroutine demo_uuid MockKeyValueAdapter 3 \<lparr>el = e2, store = led_store, uuids = 0\<rparr> = Some (Done w') \<and> isLeader (el w')"
proof -
  let ?w = "\<lparr>el = takeover_candidate, store = led_store, uuids = 0\<rparr>"
  note simps = takeover_candidate_def demo_candidate_def init_election_def led_store_def
  have e: "\<not> isLeader (el ?w)" "log_ok (el ?w)" "\<not> mu (el ?w)" "wants_takeover (cfg (el ?w))" "in_i64 (Priority (cfg (el ?w)))"
      "leaderID (el ?w) \<noteq> ''node-2''" "gos (el ?w) = []"
    by (simp_all add: simps log_ok_def can_log_def Background_def wants_takeover_def in_i64_def)
  have "(4::u64) < max_rev" by code_simp
  then have s: "mock_ok (store ?w)" "mock_up (store ?w)" "\<not> failGet (store ?w)" "rev_counter (store ?w) < max_rev"
      "mock_contents (store ?w) (key (el ?w)) = Some (Value demo_entry, Revision demo_entry)"
    by (simp_all add: simps mock_Create_def NewMockKeyValue_def mock_ok_def mock_up_def mock_contents_def demo_entry_def Let_def)
  have u: "\<forall>n. ascii (demo_uuid n)" by (auto simp: demo_uuid_def)
  have p: "0 < Priority (cfg takeover_candidate)" by (simp add: simps)
  show ?thesis
    using watched_takeover [OF e(1-5) s(1-4) u demo_entry_decodes _ demo_entry_decodes _ s(5), of 1 2 3] e(6,7) p
    by (auto simp: won_def)
qed

subsection \<open>A leader that runs an attempt\<close>

lemma takeover_refused:
  assumes "mock_ok (store w)" "\<not> failGet (store w)" "mock_contents (store w) (key (el w)) = Some (v, r)"
    and "wants_takeover (cfg (el w))" "Unmarshal_payload v = Inr p" "Priority (cfg (el w)) \<le> pl_Priority p"
  shows "\<exists>err. attemptAcquire uuid MockKeyValueAdapter now w =
    Some (Done (Some err, w\<lparr>uuids := uuids w + 1, el := (el w)\<lparr>leaderID := pl_ID p, revision := r\<rparr>\<rparr>))"
proof -
  obtain me where "data (store w) (key (el w)) = Some me" "me_Value me = v" "me_Rev me = r"
    using assms(3) by (auto simp: mock_contents_def)
  with assms show ?thesis
    by (subst attemptAcquire.simps)
      (auto simp: takeover_body_def MockKeyValueAdapter_def mock_Create_def mock_Get_def mock_ok_def MockEntryAdapter_def Let_def)
qed

text \<open>
  C32: A leader configured for takeover whose key is held by another instance with at least its
  priority: an attempt to acquire fails and leaves it leader, and the heartbeat after it writes the
  instance's own payload over the other leader's entry, whatever revision the instance had before;
  without the attempt that heartbeat would have demoted it.
\<close>

theorem failed_takeover_steals:
  assumes "leading c w" "mock_ok (store w)" "mock_up (store w)" "\<not> failGet (store w)" "rev_counter (store w) < max_rev"
    and "wants_takeover (cfg (el w))" "mock_contents (store w) (key (el w)) = Some (v, r)" "r \<noteq> revision (el w)"
    and "Unmarshal_payload v = Inr p" "Priority (cfg (el w)) \<le> pl_Priority p" "quiet_tick w t" "0 \<le> n"
  shows "(\<exists>err w1 w2. attemptAcquire uuid MockKeyValueAdapter now w = Some (Done (Some err, w1)) \<and> isLeader (el w1) \<and>
      heartbeat_pass MockKeyValueAdapter c t n w1 = Done (Continue 0 w2) \<and> isLeader (el w2) \<and>
      mock_contents (store w2) (key (el w)) = Some (json_Marshal (own_payload (el w) (token (el w))), revision (el w2))) \<and>
    (\<exists>w3. heartbeat_pass MockKeyValueAdapter c t n w = Done (Return w3) \<and> \<not> isLeader (el w3))"
proof -
  let ?w1 = "w\<lparr>uuids := uuids w + 1, el := (el w)\<lparr>leaderID := pl_ID p, revision := r\<rparr>\<rparr>"
  obtain err where a: "attemptAcquire uuid MockKeyValueAdapter now w = Some (Done (Some err, ?w1))"
    using takeover_refused [OF assms(2,4,7,6,9,10)] by blast
  have l: "leading c ?w1" using assms(1) by (simp add: leading_def loop_ctx_def log_ok_def)
  have q: "quiet_tick ?w1 t" using assms(11) by (simp add: quiet_tick_def)
  obtain w2 where w2: "heartbeat_pass MockKeyValueAdapter c t n ?w1 = Done (Continue 0 w2)" "leading c w2"
    "mock_contents (store w2) (key (el w)) = Some (json_Marshal (own_payload (el ?w1) (token (el ?w1))), revision (el w2))"
    using mock.heartbeat_renews [OF l _ _ _ q assms(12), of v] assms(2,3,5,7) by auto
  have p: "own_payload (el ?w1) (token (el ?w1)) = own_payload (el w) (token (el w))" by (simp add: own_payload_def)
  have i: "isLeader (el ?w1)" "isLeader (el w2)" using l w2(2) by (simp_all only: leading_def)
  have "\<exists>w3. heartbeat_pass MockKeyValueAdapter c t n w = Done (Return w3) \<and> \<not> isLeader (el w3)"
    using mock.heartbeat_yields [OF assms(1-3,11)] assms(7,8) by (auto simp: ended_def)
  moreover have "\<exists>err w1 w2. attemptAcquire uuid MockKeyValueAdapter now w = Some (Done (Some err, w1)) \<and> isLeader (el w1) \<and>
      heartbeat_pass MockKeyValueAdapter c t n w1 = Done (Continue 0 w2) \<and> isLeader (el w2) \<and>
      mock_contents (store w2) (key (el w)) = Some (json_Marshal (own_payload (el w) (token (el w))), revision (el w2))"
    using a w2(1) w2(3) [unfolded p] i by (intro exI conjI)
  ultimately show ?thesis by (rule conjI [rotated])
qed

text \<open>The leader at revision 1 whose key a peer of the same priority has acquired at revision 2.\<close>

definition usurped :: "MockKeyValue world" where
  "usurped = \<lparr>el = demo_leader\<lparr>cfg := (demo_config ''node-1'')\<lparr>AllowPriorityTakeover := True, Priority := 5\<rparr>\<rparr>,
     store = snd (mock_Create ''demo-group'' (json_Marshal \<lparr>pl_ID = ''node-2'', pl_Token = ''tok2'', pl_Priority = 5\<rparr>)
       (NewMockKeyValue\<lparr>rev_counter := 1\<rparr>)), uuids = 0\<rparr>"

theorem failed_takeover_steals_witness:
  "\<exists>err w1 w2. attemptAcquire demo_uuid MockKeyValueAdapter 3 usurped = Some (Done (Some err, w1)) \<and>
     heartbeat_pass MockKeyValueAdapter 0 demo_tick 0 w1 = Done (Continue 0 w2) \<and> isLeader (el w2) \<and>
     mock_contents (store w2) ''demo-group'' = Some (json_Marshal (own_payload (el usurped) ''tok''), revision (el w2))"
proof -
  let ?v = "json_Marshal \<lparr>pl_ID = ''node-2'', pl_Token = ''tok2'', pl_Priority = 5\<rparr>"
  have d: "Unmarshal_payload ?v = Inr \<lparr>pl_ID = ''node-2'', pl_Token = ''tok2'', pl_Priority = 5\<rparr>" by code_simp
  have "leading 0 usurped"
    by (simp add: usurped_def demo_leader_def leading_def loop_ctx_def log_ok_def can_log_def init_election_def Background_def)
  moreover have "mock_ok (store usurped)" "mock_up (store usurped)" "\<not> failGet (store usurped)" "rev_counter (store usurped) < max_rev"
    "mock_contents (store usurped) (key (el usurped)) = Some (?v, 2)"
    by (simp_all add: usurped_def mock_Create_def NewMockKeyValue_def mock_ok_def mock_up_def mock_contents_def demo_leader_def
        init_election_def Let_def)
  moreover have "wants_takeover (cfg (el usurped))" "2 \<noteq> revision (el usurped)" "quiet_tick usurped demo_tick" "key (el usurped) = ''demo-group''"
    "token (el usurped) = ''tok''" "Priority (cfg (el usurped)) \<le> 5"
    by (simp_all add: usurped_def demo_leader_def wants_takeover_def quiet_tick_def demo_tick_def init_election_def)
  ultimately show ?thesis
    using failed_takeover_steals [of 0 usurped ?v 2 _ demo_tick 0 demo_uuid 3, OF _ _ _ _ _ _ _ _ d] by auto
qed

end
