(* ===== verification/Cluster.thy ===== *)
theory Cluster
  imports Lifecycle
begin

text \<open>
  Several instances over one store. What each operation of an instance does to leadership and to the
  store is stated once over the contract of a store; the cluster interleaves the operations of its
  instances, with the expiry of keys as a step of the store, and answers of the store that come late.
  Safety is proved for configurations without priority takeover.
\<close>

subsection \<open>Leadership frame\<close>

text \<open>
  An operation that does not acquire or renew: it may end a leadership, but a leader it leaves keeps
  its revision and token, and no follower becomes leader.
\<close>

definition lf :: "kvElection \<Rightarrow> kvElection \<Rightarrow> bool" where
  "lf e e' \<longleftrightarrow> cfg e' = cfg e \<and> key e' = key e \<and>
     (isLeader e' \<longrightarrow> isLeader e \<and> revision e' = revision e \<and> token e' = token e)"

lemma lf_refl [simp]: "lf e e"
  by (simp add: lf_def)

lemma lf_trans: "lf a b \<Longrightarrow> lf b c \<Longrightarrow> lf a c"
  by (auto simp: lf_def)

lemma lf_same: "same_but_metrics e e' \<Longrightarrow> lf e e'"
  using same_but_metricsD [of e e'] by (simp add: lf_def)

lemma lf_demoted [simp]: "lf e (demoted now e)" "lf e (demoted_called now e)"
  by (simp_all add: lf_def)

lemma lf_demoted_same: "same_but_metrics e e' \<Longrightarrow> lf e (demoted_called now e')"
  using same_but_metricsD [of e e'] by (simp add: lf_def)

lemma lf_Start: "Start now parent e = Done (err, e') \<Longrightarrow> lf e e'"
  by (auto simp: Start_def Lock_def Unlock_def lf_def observe_eq go_def Let_def split: if_splits option.splits)

lemma lf_Stop_begin: "Stop_begin now e = Done (r, e') \<Longrightarrow> lf e e'"
  by (auto simp: Stop_begin_def Lock_def Unlock_def stop_monitor_def log_then_eq lf_def Let_def split: if_splits)

lemma lf_Stop_end: "Stop_end b e = Done (err, e') \<Longrightarrow> lf e e'"
  by (auto simp: Stop_end_def log_then_eq lf_def split: if_splits option.splits)

lemma lf_StopWithContext_begin: "StopWithContext_begin now e = Done (r, e') \<Longrightarrow> lf e e'"
  by (auto simp: StopWithContext_begin_def Lock_def Unlock_def stop_monitor_def lf_def split: if_splits)

lemma lf_stop_finish: "stop_finish kv c opts t b dw w = Done (err, w') \<Longrightarrow> lf (el w) (el w')"
  by (auto simp: stop_finish_def Lock_def Unlock_def lf_def go_def Let_def split: if_splits option.splits)

lemma lf_locked [simp]: "lf e (e\<lparr>mu := b\<rparr>)"
  by (simp add: lf_def)

lemma lf_follow: "follow now w = Done w' \<Longrightarrow> lf (el w) (el w') \<and> store w' = store w"
  by (auto simp: follow_def becomeFollower_outcome split: if_splits)

lemma lf_validateToken: "validateToken kv c late w = Done (r, w') \<Longrightarrow> lf (el w) (el w')"
  using validateToken_frame [of kv c late w "fst r" "snd r" w'] lf_same by auto

lemma lf_handleWatchEvent: "handleWatchEvent now entry e = Done e' \<Longrightarrow> lf e e'"
  by (auto simp: handleWatchEvent_def log_then_eq becomeFollower_outcome Let_def split: option.splits if_splits sum.splits)
    (auto simp: lf_def)

lemma lf_checkKeyAndReelect: "checkKeyAndReelect kv c w = Done w' \<Longrightarrow> lf (el w) (el w')"
  by (auto simp: checkKeyAndReelect_def log_then_eq lf_def Let_def
      split: option.splits if_splits sum.splits prod.splits json.splits)

lemma lf_conn_disconnected: "conn_disconnected now e = Done e' \<Longrightarrow> lf e e'"
  by (auto simp: conn_disconnected_def dh_handleDisconnect_def log_then_eq lf_def observe_eq Let_def
      split: option.splits if_splits prod.splits)

lemma lf_handleReconnect: "handleReconnect e = Done e' \<Longrightarrow> lf e e'"
  by (cases "mu e"; cases "dHandler e"; cases "isLeader e"; cases "can_log (ctx e) (contexts e)")
    (auto simp: handleReconnect_def Lock_def Unlock_def log_then_eq Let_def observe_eq go_def lf_def)

lemma lf_conn_reconnected: "conn_reconnected e = Done e' \<Longrightarrow> lf e e'"
  using lf_handleReconnect
  by (fastforce simp: conn_reconnected_def Let_def lf_def split: option.splits if_splits prod.splits)

lemma lf_grace: "handleGracePeriodExpired now e = Done e' \<Longrightarrow> lf e e'"
  by (auto simp: handleGracePeriodExpired_outcome split: if_splits)

lemma lf_callback: "OnPromote fn e = Done e' \<Longrightarrow> lf e e'" "OnDemote fn e = Done e' \<Longrightarrow> lf e e'"
  by (auto simp: OnPromote_def OnDemote_def Lock_def Unlock_def lf_def split: if_splits)

lemma lf_record_failed [simp]: "lf (el w) (el (record_failed err w))"
  by (simp add: record_failed_def lf_def)

lemma lf_conn_closed [simp]: "lf e (conn_closed e)"
  by (simp add: conn_closed_def lf_def)

subsection \<open>What happens to the store\<close>

text \<open>
  Reading leaves the store equivalent: its contents, its last revision and its well-formedness.
\<close>

context kv_store
begin

definition st_eq :: "'s \<Rightarrow> 's \<Rightarrow> bool" where
  "st_eq s s' \<longleftrightarrow> contents s' = contents s \<and> last_rev s' = last_rev s \<and> (ok s \<longrightarrow> ok s')"

lemma st_eq_refl [simp]: "st_eq s s"
  by (simp add: st_eq_def)

lemma st_eq_get: "ok s \<Longrightarrow> Get kv k s = (r, s') \<Longrightarrow> st_eq s s'"
  using get_frame [of s k r s'] by (simp add: st_eq_def)

lemma st_eq_trans: "st_eq a b \<Longrightarrow> st_eq b c \<Longrightarrow> st_eq a c"
  by (simp add: st_eq_def)

lemma st_eq_validateToken:
  assumes "validateToken kv c late w = Done (r, w')" "ok (store w)"
  shows "st_eq (store w) (store w')"
  using assms(1) st_eq_get [OF assms(2)]
  by (cases r) (auto simp: validateToken_def Let_def log_ctx_eq split: option.splits if_splits sum.splits prod.splits
      dest!: check_payload_frame)

lemma st_eq_check:
  assumes "checkKeyAndReelect kv c w = Done w'" "ok (store w)"
  shows "st_eq (store w) (store w')"
  using assms(1) st_eq_get [OF assms(2)]
  by (auto simp: checkKeyAndReelect_def log_then_eq Let_def split: option.splits if_splits sum.splits prod.splits json.splits)

lemma ValidateTokenOrDemote_effect:
  assumes "ValidateTokenOrDemote kv now c late w = Done (b, w')" "ok (store w)"
  shows "lf (el w) (el w') \<and> st_eq (store w) (store w')"
  using assms lf_validateToken [of kv c late w] st_eq_validateToken [of c late w]
  by (fastforce simp: ValidateTokenOrDemote_def ValidateToken_def validation_failure.handler_Done
      intro: lf_trans split: if_splits)

lemma validation_pass_effect:
  assumes "validation_pass kv c t n w = Done r" "ok (store w)"
  shows "lf (el w) (el (loop_world r)) \<and> st_eq (store w) (store (loop_world r))"
proof (cases "isLeader (el w)")
  case True
  then obtain v err w1 where v: "validateToken kv (get_ctx (el w) c) (vt_late t) w = Done ((v, err), w1)"
    using assms(1) by (auto simp: validation_pass_def)
  have c: "lf (el w) (count_validation_failure (el w1))" "lf (el w) (demoted_called x (count_validation_failure (el w1)))"
    "lf (el w) (el w1)" for x
    using lf_validateToken [OF v] lf_same [OF count_validation_failure_same] lf_trans lf_demoted(2) by blast+
  show ?thesis
    using assms(1) True v c st_eq_validateToken [OF v assms(2)]
    by (auto simp: validation_pass_def demote_and_return_def log_then_eq validation_failure.handler_Done Let_def
        split: if_splits)
next
  case False
  then show ?thesis using assms(1) by (auto simp: validation_pass_def)
qed

lemma verify_effect:
  assumes "verifyLeadershipAfterReconnect kv now late w = Done w'" "ok (store w)"
  shows "lf (el w) (el w') \<and> st_eq (store w) (store w')"
proof -
  obtain r st where g: "Get kv (key (el w)) (store w) = (r, st)" by (cases "Get kv (key (el w)) (store w)")
  have ge: "st_eq (store w) st" "ok st" using st_eq_get [OF assms(2) g] assms(2) by (simp_all add: st_eq_def)
  have f: "lf e e'" if "handleReconnectVerificationFailed now e = Done e'" for e e'
    using that by (auto simp: handleReconnectVerificationFailed_def Lock_def Unlock_def log_then_eq becomeFollower_outcome lf_def
        split: if_splits)
  show ?thesis
  proof (cases r)
    case (Inl err)
    with g assms(1) ge f show ?thesis by (auto simp: verifyLeadershipAfterReconnect_def Let_def)
  next
    case (Inr en)
    then obtain v err w1 where v: "validateToken kv Background late (w\<lparr>store := st\<rparr>) = Done ((v, err), w1)"
      using assms(1) g by (auto simp: verifyLeadershipAfterReconnect_def Let_def)
    have l: "lf (el w) (el w1)" using lf_validateToken [OF v] by simp
    have s: "st_eq (store w) (store w1)" using st_eq_validateToken [OF v] ge st_eq_trans by auto
    have "lf (el w1) (el w') \<and> store w' = store w1"
      using assms(1) g Inr v f
      by (cases "connectionMonitor (el w1)")
        (auto simp: verifyLeadershipAfterReconnect_def Let_def Lock_def Unlock_def observe_eq lf_def split: if_splits)
    with l s show ?thesis using lf_trans by auto
  qed
qed

text \<open>
  The effect of any operation is one of three: it reads; it deletes the key; or it writes the key
  under a fresh revision. A write makes the instance the leader at that revision with its own payload
  stored, either on a vacant key or as a renewal, by a leader, of the entry at its own revision, or else it is an update given up on,
  which finds the key present and leaves the instance as it is.
\<close>

definition reads :: "kvElection \<Rightarrow> 's \<Rightarrow> kvElection \<Rightarrow> 's \<Rightarrow> bool" where
  "reads e s e' s' \<longleftrightarrow> lf e e' \<and> st_eq s s'"

definition deletes :: "kvElection \<Rightarrow> 's \<Rightarrow> kvElection \<Rightarrow> 's \<Rightarrow> bool" where
  "deletes e s e' s' \<longleftrightarrow> lf e e' \<and> ok s' \<and> last_rev s' = last_rev s \<and> contents s' = (contents s)(key e := None)"

definition writes :: "kvElection \<Rightarrow> 's \<Rightarrow> kvElection \<Rightarrow> 's \<Rightarrow> bool" where
  "writes e s e' s' \<longleftrightarrow> cfg e' = cfg e \<and> key e' = key e \<and> ok s' \<and> last_rev s < last_rev s' \<and>
     (\<exists>v. contents s' = (contents s)(key e \<mapsto> (v, last_rev s')) \<and>
       (lf e e' \<and> contents s (key e) \<noteq> None \<or>
        isLeader e' \<and> revision e' = last_rev s' \<and> v = json_Marshal (own_payload e' (token e')) \<and>
          (contents s (key e) = None \<or> isLeader e \<and> token e' = token e \<and> (\<exists>x. contents s (key e) = Some (x, revision e)))))"

lemma acquire_effect:
  assumes "attemptAcquire uuid kv now w = Some (Done (err, w'))" "\<not> wants_takeover (cfg (el w))"
    and "ok (store w)" "last_rev (store w) < max_rev"
  shows "reads (el w) (store w) (el w') (store w') \<or> writes (el w) (store w) (el w') (store w')"
proof -
  let ?tok = "uuid (uuids w)"
  let ?b = "json_Marshal (own_payload (el w) ?tok)"
  obtain r st where c: "Create kv (key (el w)) ?b (ttl_opts (cfg (el w))) (store w) = (r, st)"
    by (cases "Create kv (key (el w)) ?b (ttl_opts (cfg (el w))) (store w)")
  have once: "acquire_once uuid kv now w = Result (Done (err, w'))"
    using assms(1,2) by (subst (asm) attemptAcquire_once) (auto simp: acquire_once_def Let_def split: prod.splits sum.splits)
  show ?thesis
  proof (cases r)
    case (Inl er)
    then have "w' = record_failed er (w\<lparr>store := st, uuids := uuids w + 1\<rparr>)"
      using once c assms(2) by (simp add: acquire_once_def acquire_failed_Done Let_def)
    moreover have "st_eq (store w) st" using create_err [OF assms(3)] c Inl by (auto simp: st_eq_def)
    ultimately show ?thesis by (auto simp: reads_def record_failed_def lf_def)
  next
    case (Inr rv)
    then have w': "w' = w\<lparr>store := st, uuids := uuids w + 1, el := promoted now ?tok rv (recordAcquireAttempt ''success'' (el w))\<rparr>"
      using once c by (simp add: acquire_once_def acquire_won_Done Let_def)
    have "contents (store w) (key (el w)) = None" "contents st = (contents (store w))(key (el w) \<mapsto> (?b, rv))"
      "last_rev (store w) < rv" "last_rev st = rv" "ok st"
      using create_ok [OF assms(3,4)] c Inr by blast+
    moreover have "own_payload (el w') (token (el w')) = own_payload (el w) ?tok" by (simp add: w' own_payload_def)
    ultimately have "writes (el w) (store w) (el w') (store w')" by (simp add: writes_def w')
    then show ?thesis by blast
  qed
qed

lemma heartbeat_failed_effect:
  assumes "heartbeat_failed kv c t n err w = Done r" "ok (store w)"
  shows "lf (el w) (el (loop_world r)) \<and> st_eq (store w) (store (loop_world r))"
proof -
  obtain w1 where w1: "log_takeover kv c err (w\<lparr>el := observe_heartbeat ''failure'' t (el w)\<rparr>) = Done w1"
    using assms(1) by (auto simp: heartbeat_failed_def Let_def)
  then have w1s: "el w1 = observe_heartbeat ''failure'' t (el w)" "st_eq (store w) (store w1)"
    using st_eq_get [OF assms(2)]
    by (auto simp: log_takeover_def log_then_eq Let_def split: if_splits prod.splits sum.splits option.splits)
  have s: "same_but_metrics (el w) (el w1)" "same_but_metrics (el w) (recordFailure et (el w1))" for et
    using w1s(1) same_but_metrics_trans [OF _ recordFailure_same] by auto
  show ?thesis
    using assms(1) w1 w1s(2) lf_same [OF s(2)] lf_demoted_same [OF s(2)]
    by (auto simp: heartbeat_failed_def with_el_def log_then_eq heartbeat_failure.handler_Done Let_def split: if_splits)
qed

lemma heartbeat_update_effect:
  assumes "heartbeat_update kv c t n w = Done r" "ht_mid t = id" "ht_after t = id" "isLeader (el w)"
    and "ok (store w)" "last_rev (store w) < max_rev"
  shows "reads (el w) (store w) (el (loop_world r)) (store (loop_world r)) \<or>
    writes (el w) (store w) (el (loop_world r)) (store (loop_world r))"
proof (cases "ht_wait t")
  case UpdateCtxDone
  then show ?thesis using assms(1-3) by (auto simp: heartbeat_update_def reads_def Let_def)
next
  case UpdateTimeout
  then show ?thesis
    using assms(1-3,5) heartbeat_failed_effect by (auto simp: heartbeat_update_def reads_def Let_def)
next
  case UpdateResult
  let ?b = "json_Marshal (own_payload (el w) (token (el w)))"
  obtain u st where u: "Update kv (key (el w)) ?b (revision (el w)) (ttl_opts (cfg (el w))) (store w) = (u, st)"
    by (cases "Update kv (key (el w)) ?b (revision (el w)) (ttl_opts (cfg (el w))) (store w)")
  show ?thesis
  proof (cases u)
    case (Inl err)
    have "st_eq (store w) st" "ok st" using update_err [OF assms(5)] u Inl by (auto simp: st_eq_def)
    moreover have "heartbeat_failed kv c t n err (w\<lparr>store := st\<rparr>) = Done r"
      using assms(1-3) UpdateResult u Inl by (simp add: heartbeat_update_def Let_def)
    ultimately show ?thesis using heartbeat_failed_effect [of c t n err "w\<lparr>store := st\<rparr>" r] st_eq_trans by (auto simp: reads_def)
  next
    case (Inr newRev)
    have up: "\<exists>x. contents (store w) (key (el w)) = Some (x, revision (el w))"
      "contents st = (contents (store w))(key (el w) \<mapsto> (?b, newRev))" "last_rev (store w) < newRev" "last_rev st = newRev" "ok st"
      using update_ok [OF assms(5,6)] u Inr by blast+
    have "heartbeat_succeeded c t n newRev (w\<lparr>store := st\<rparr>) = Done r"
      using assms(1-3) UpdateResult u Inr by (simp add: heartbeat_update_def Let_def)
    then have r: "cfg (el (loop_world r)) = cfg (el w)" "key (el (loop_world r)) = key (el w)" "isLeader (el (loop_world r))"
      "token (el (loop_world r)) = token (el w)" "revision (el (loop_world r)) = newRev" "store (loop_world r) = st"
      using assms(4)
      by (auto simp: heartbeat_succeeded_def log_then_eq observe_heartbeat_def observe_eq Let_def split: if_splits)
    then have "own_payload (el (loop_world r)) (token (el (loop_world r))) = own_payload (el w) (token (el w))"
      by (simp add: own_payload_def)
    with r up assms(4) have "writes (el w) (store w) (el (loop_world r)) (store (loop_world r))"
      unfolding writes_def by (intro conjI exI [of _ ?b]) simp_all
    then show ?thesis by blast
  qed
qed

lemma reads_writes_lf:
  "lf e0 e \<Longrightarrow> cfg e = cfg e0 \<Longrightarrow> isLeader e = isLeader e0 \<Longrightarrow> token e = token e0 \<Longrightarrow> key e = key e0 \<Longrightarrow>
   revision e = revision e0 \<Longrightarrow> reads e s e' s' \<or> writes e s e' s' \<Longrightarrow> reads e0 s e' s' \<or> writes e0 s e' s'"
  using lf_trans [of e0 e e'] by (auto simp: reads_def writes_def)

lemma heartbeat_effect:
  assumes "heartbeat_pass kv c t n w = Done r" "ht_mid t = id" "ht_after t = id"
    and "ok (store w)" "last_rev (store w) < max_rev"
  shows "reads (el w) (store w) (el (loop_world r)) (store (loop_world r)) \<or>
    writes (el w) (store w) (el (loop_world r)) (store (loop_world r))"
proof -
  let ?h = "\<lambda>k. (el w)\<lparr>healthFailureCount := k\<rparr>"
  have lfh: "lf (el w) (?h k)" "lf (el w) (demoted_called now (?h k))" for k now by (simp_all add: lf_def)
  consider (idle) "\<not> isLeader (el w)" "r = Return w"
    | (update) k where "isLeader (el w)" "heartbeat_update kv c t n (w\<lparr>el := ?h k\<rparr>) = Done r"
    | (ill) k where "el (loop_world r) = ?h k \<or> el (loop_world r) = demoted_called (ht_now t) (?h k)" "store (loop_world r) = store w"
  proof (cases "isLeader (el w)")
    case True
    have eq: "w\<lparr>el := ?h (healthFailureCount (el w))\<rparr> = w" by simp
    show ?thesis
    proof (cases "HealthChecker (cfg (el w)) \<and> \<not> ht_healthy t")
      case True
      then show ?thesis
        using assms(1) \<open>isLeader (el w)\<close> that(3) [of "i32 (healthFailureCount (el w) + 1)"]
        by (auto simp: heartbeat_pass_def with_el_def log_then_eq health_failure.handler_Done Let_def split: if_splits)
    next
      case False
      then show ?thesis
        using assms(1) \<open>isLeader (el w)\<close> that(2) [of 0] that(2) [of "healthFailureCount (el w)"] eq
        by (auto simp: heartbeat_pass_def log_then_eq Let_def split: if_splits)
    qed
  next
    case False
    then show ?thesis using assms(1) that(1) by (simp add: heartbeat_pass_def)
  qed
  then show ?thesis
  proof cases
    case idle
    then show ?thesis by (simp add: reads_def)
  next
    case update
    have "reads (?h k) (store w) (el (loop_world r)) (store (loop_world r)) \<or> writes (?h k) (store w) (el (loop_world r)) (store (loop_world r))"
      using heartbeat_update_effect [OF update(2) assms(2,3)] update(1) assms(4,5) by simp
    then show ?thesis by (rule reads_writes_lf [OF lfh(1), rotated -1]) simp_all
  next
    case ill
    then show ?thesis using lfh by (auto simp: reads_def)
  qed
qed

lemma stop_finish_effect:
  assumes "stop_finish kv c opts t b dw w = Done (err, w')" "ok (store w)"
  shows "reads (el w) (store w) (el w') (store w') \<or> DeleteKey opts \<and> deletes (el w) (store w) (el w') (store w')"
proof -
  have l: "lf (el w) (el w')" using lf_stop_finish [OF assms(1)] .
  have "store w' = store w \<or> DeleteKey opts \<and> store w' = snd (Delete kv (key (el w)) (store w))"
    using assms(1) by (auto simp: stop_finish_def Lock_def Unlock_def Let_def split: if_splits option.splits)
  moreover have "st_eq (store w) s' \<or> ok s' \<and> last_rev s' = last_rev (store w) \<and> contents s' = (contents (store w))(key (el w) := None)"
    if "Delete kv (key (el w)) (store w) = (er, s')" for er s'
    using that delete_ok [OF assms(2)] delete_err [OF assms(2)] by (cases er) (auto simp: st_eq_def)
  ultimately show ?thesis using l by (cases "Delete kv (key (el w)) (store w)") (auto simp: reads_def deletes_def)
qed

lemma late_update_effect:
  assumes "Update kv (key (el w)) v rv opts (store w) = (r, st)" "ok (store w)" "last_rev (store w) < max_rev"
  shows "reads (el w) (store w) (el w) st \<or> writes (el w) (store w) (el w) st"
proof (cases r)
  case (Inl err)
  then show ?thesis using update_err [OF assms(2)] assms(1) by (auto simp: reads_def st_eq_def)
next
  case (Inr n)
  then have "\<exists>x. contents (store w) (key (el w)) = Some (x, rv)" "contents st = (contents (store w))(key (el w) \<mapsto> (v, n))"
    "last_rev (store w) < n" "last_rev st = n" "ok st"
    using update_ok [OF assms(2,3)] assms(1) by blast+
  then have "writes (el w) (store w) (el w) st"
    unfolding writes_def by (intro conjI exI [of _ v] disjI1) auto
  then show ?thesis by blast
qed

lemma step_effect:
  assumes "step uuid kv l w w'" "l \<noteq> OpStore" "l \<noteq> OpCreated" "\<not> wants_takeover (cfg (el w))" "ok (store w)" "last_rev (store w) < max_rev"
  shows "reads (el w) (store w) (el w') (store w') \<or> writes (el w) (store w) (el w') (store w') \<or>
    l = OpStopWithContext True \<and> deletes (el w) (store w) (el w') (store w')"
  using assms
proof (induction rule: step.induct)
  case (step_stop_finish c opts timeout wasLeader dw w err w')
  then show ?case using stop_finish_effect [OF step_stop_finish(1)] by auto
next
  case (step_validate_token cx late w v w')
  then show ?case using lf_validateToken [OF step_validate_token(1)] st_eq_validateToken [OF step_validate_token(1)] by (simp add: reads_def)
next
  case (step_acquire now w err w')
  then show ?case using acquire_effect by blast
next
  case (step_heartbeat c t n w r)
  then show ?case using heartbeat_effect by blast
next
  case (step_late_update w tok rv opts r st)
  then show ?case using late_update_effect by fastforce
next
  case (step_validate now cx late w b w')
  then show ?case using ValidateTokenOrDemote_effect by (auto simp: reads_def)
next
  case (step_validation_pass c vt n w r)
  then show ?case using validation_pass_effect by (auto simp: reads_def)
next
  case (step_check co w w')
  then show ?case using lf_checkKeyAndReelect st_eq_check by (auto simp: reads_def)
next
  case (step_verify now late w w')
  then show ?case using verify_effect by (auto simp: reads_def)
next
  case (step_follow now w w')
  then show ?case using lf_follow by (auto simp: reads_def)
next
  case (step_record w er)
  then show ?case by (simp add: reads_def) (simp add: record_failed_def)
next
  case (step_watch_end w)
  then show ?case by (simp add: reads_def lf_def)
qed (auto simp: reads_def intro: lf_Start lf_Stop_begin lf_Stop_end lf_StopWithContext_begin lf_handleWatchEvent lf_conn_disconnected lf_conn_reconnected lf_grace lf_callback)

end

subsection \<open>The cluster\<close>

text \<open>
  The instances, the store they share, and the tokens drawn so far. \<open>pend\<close> are the \<open>Create\<close> calls that the
  store has performed and whose answer has not reached the goroutine that waits for it: the instance, the
  token it sent and the revision it was given.
\<close>

record cluster =
  insts :: "nat \<Rightarrow> kvElection"
  cstore :: MockKeyValue
  ctoks :: nat
  pend :: "(nat \<times> string \<times> u64) set"

definition view :: "cluster \<Rightarrow> nat \<Rightarrow> MockKeyValue world" where
  "view c i = \<lparr>el = insts c i, store = cstore c, uuids = ctoks c\<rparr>"

text \<open>The store drops a key whose time to live has passed, or that someone deletes.\<close>

definition expire :: "string \<Rightarrow> MockKeyValue \<Rightarrow> MockKeyValue" where
  "expire k m = m\<lparr>data := (data m)(k := None)\<rparr>"

datatype cop = Inst nat op | CreateDone nat | CreateSeen nat | Expire string

text \<open>
  An attempt is one step when its \<open>Create\<close> is answered at once. Otherwise it is two, and anything may
  happen in between: the store creates the entry, and later the instance sees the answer and becomes
  leader. (A refused \<open>Create\<close> changes nothing in the store; what the instance does when it learns of it are
  the steps \<open>OpRecord\<close> and \<open>OpFollow\<close>.) Runs are considered up to the point where the 64-bit revision counter
  is used up.
\<close>

inductive cstep :: "(nat \<Rightarrow> string) \<Rightarrow> cop \<Rightarrow> cluster \<Rightarrow> cluster \<Rightarrow> bool" for uuid where
  cstep_inst: "step uuid MockKeyValueAdapter l (view c i) w' \<Longrightarrow> l \<noteq> OpStore \<Longrightarrow> l \<noteq> OpCreated \<Longrightarrow>
    rev_counter (cstore c) < max_rev \<Longrightarrow>
    cstep uuid (Inst i l) c (c\<lparr>insts := (insts c)(i := el w'), cstore := store w', ctoks := uuids w'\<rparr>)"
| cstep_create: "tok = uuid (ctoks c) \<Longrightarrow> rev_counter (cstore c) < max_rev \<Longrightarrow>
    Create MockKeyValueAdapter (key (insts c i)) (json_Marshal (own_payload (insts c i) tok)) (ttl_opts (cfg (insts c i))) (cstore c)
      = (Inr rv, st) \<Longrightarrow>
    cstep uuid (CreateDone i) c (c\<lparr>cstore := st, ctoks := ctoks c + 1, pend := insert (i, tok, rv) (pend c)\<rparr>)"
| cstep_created: "(i, tok, rv) \<in> pend c \<Longrightarrow> acquire_won now tok rv (view c i) = Done (err, w') \<Longrightarrow>
    cstep uuid (CreateSeen i) c (c\<lparr>insts := (insts c)(i := el w'), pend := pend c - {(i, tok, rv)}\<rparr>)"
| cstep_expire: "cstep uuid (Expire k) c (c\<lparr>cstore := expire k (cstore c)\<rparr>)"

text \<open>New instances on an empty store; none is configured to take over.\<close>

definition cinit :: "cluster \<Rightarrow> bool" where
  "cinit c \<longleftrightarrow> cstore c = NewMockKeyValue \<and> pend c = {} \<and>
     (\<forall>i. \<exists>cf hasConn. insts c i = init_election cf hasConn \<and> \<not> wants_takeover cf)"

text \<open>
  A claim to leadership: an instance leads with a token and a revision, or will do so when the answer
  to its \<open>Create\<close> arrives. Different claims have different revisions, none beyond the counter; no claim has
  a revision larger than the one stored at its key, and a stored entry with the revision of a claim is the
  payload of that claim.
\<close>

definition claims :: "cluster \<Rightarrow> nat \<Rightarrow> string \<Rightarrow> u64 \<Rightarrow> bool" where
  "claims c i tok r \<longleftrightarrow>
     isLeader (insts c i) \<and> token (insts c i) = tok \<and> revision (insts c i) = r \<or> (i, tok, r) \<in> pend c"

definition cinv :: "cluster \<Rightarrow> bool" where
  "cinv c \<longleftrightarrow> mock_ok (cstore c) \<and> (\<forall>i. \<not> wants_takeover (cfg (insts c i))) \<and>
     (\<forall>i tok r. claims c i tok r \<longrightarrow> r \<le> rev_counter (cstore c)) \<and>
     (\<forall>i tok j tok' r. claims c i tok r \<longrightarrow> claims c j tok' r \<longrightarrow> i = j \<and> tok = tok') \<and>
     (\<forall>i tok r v r'. claims c i tok r \<longrightarrow> mock_contents (cstore c) (key (insts c i)) = Some (v, r') \<longrightarrow>
        r \<le> r' \<and> (r = r' \<longrightarrow> v = json_Marshal (own_payload (insts c i) tok)))"

lemma claims_leader: "isLeader (insts c i) \<Longrightarrow> claims c i (token (insts c i)) (revision (insts c i))"
  by (simp add: claims_def)

lemma cinvD:
  assumes "cinv c"
  shows "mock_ok (cstore c)" "\<not> wants_takeover (cfg (insts c i))"
    "claims c i tok r \<Longrightarrow> r \<le> rev_counter (cstore c)"
    "claims c i tok r \<Longrightarrow> claims c j tok' r \<Longrightarrow> i = j \<and> tok = tok'"
    "claims c i tok r \<Longrightarrow> mock_contents (cstore c) (key (insts c i)) = Some (v, r') \<Longrightarrow> r \<le> r'"
    "claims c i tok r \<Longrightarrow> mock_contents (cstore c) (key (insts c i)) = Some (v, r) \<Longrightarrow>
       v = json_Marshal (own_payload (insts c i) tok)"
  using assms unfolding cinv_def by blast+

lemma own_payload_cong: "cfg e' = cfg e \<Longrightarrow> own_payload e' = own_payload e"
  by (simp add: own_payload_def fun_eq_iff)

text \<open>
  The invariant after a step, by what the step does to the claims: it keeps or drops them and writes
  nothing but fresh revisions, or it adds one with a fresh revision.
\<close>

lemma cinv_old:
  assumes "cinv c" "\<And>j. cfg (insts c' j) = cfg (insts c j) \<and> key (insts c' j) = key (insts c j)"
    and "mock_ok (cstore c')" "rev_counter (cstore c) \<le> rev_counter (cstore c')"
    and claims: "\<And>j tok r. claims c' j tok r \<Longrightarrow> claims c j tok r"
    and entries: "\<And>k v r. mock_contents (cstore c') k = Some (v, r) \<Longrightarrow> mock_contents (cstore c) k = Some (v, r) \<or> rev_counter (cstore c) < r"
  shows "cinv c'"
proof -
  note inv = cinvD [OF assms(1)]
  have "r \<le> r' \<and> (r = r' \<longrightarrow> v = json_Marshal (own_payload (insts c' j) tok))"
    if j: "claims c' j tok r" "mock_contents (cstore c') (key (insts c' j)) = Some (v, r')" for j tok r v r'
  proof -
    have o: "own_payload (insts c' j) = own_payload (insts c j)" using assms(2) own_payload_cong by blast
    from entries [OF j(2)] show ?thesis
    proof
      assume e: "mock_contents (cstore c) (key (insts c' j)) = Some (v, r')"
      then show ?thesis using inv(5,6) [OF claims [OF j(1)]] assms(2) o by auto
    next
      assume "rev_counter (cstore c) < r'"
      then have "r < r'" using inv(3) [OF claims [OF j(1)]] by (rule le_less_trans [rotated])
      then show ?thesis by auto
    qed
  qed
  moreover have "r \<le> rev_counter (cstore c')" if "claims c' j tok r" for j tok r
    using inv(3) [OF claims [OF that]] assms(4) by (rule order_trans)
  moreover have "\<not> wants_takeover (cfg (insts c' j))" for j using assms(2) inv(2) by simp
  ultimately show ?thesis using assms(3) inv(4) claims unfolding cinv_def by blast
qed

lemma cinv_new:
  assumes "cinv c" "\<And>j. cfg (insts c' j) = cfg (insts c j) \<and> key (insts c' j) = key (insts c j)"
    and "mock_ok (cstore c')" "rev_counter (cstore c) < rev_counter (cstore c')"
    and claims: "\<And>j t r. claims c' j t r \<Longrightarrow> claims c j t r \<or> j = i \<and> t = tok \<and> r = rev_counter (cstore c')"
    and entry: "mock_contents (cstore c') = (mock_contents (cstore c))(key (insts c i) \<mapsto>
      (json_Marshal (own_payload (insts c i) tok), rev_counter (cstore c')))"
  shows "cinv c'"
proof -
  note inv = cinvD [OF assms(1)]
  have old: "r < rev_counter (cstore c')" if "claims c j t r" for j t r
    using inv(3) [OF that] assms(4) by (rule le_less_trans)
  have o: "own_payload (insts c' j) = own_payload (insts c j)" "key (insts c' j) = key (insts c j)" for j
    using assms(2) own_payload_cong by blast+
  have le: "r \<le> rev_counter (cstore c')" if "claims c' j t r" for j t r
    using claims [OF that] old by (auto intro: less_imp_le)
  moreover have "j = k \<and> t = t'" if "claims c' j t r" "claims c' k t' r" for j t k t' r
    using claims [OF that(1)] claims [OF that(2)] old inv(4) by blast
  moreover have "r \<le> r' \<and> (r = r' \<longrightarrow> v = json_Marshal (own_payload (insts c' j) t))"
    if j: "claims c' j t r" "mock_contents (cstore c') (key (insts c' j)) = Some (v, r')" for j t r v r'
  proof (cases "key (insts c j) = key (insts c i)")
    case True
    then have v: "v = json_Marshal (own_payload (insts c i) tok)" "r' = rev_counter (cstore c')" using j(2) entry o(2) by auto
    from claims [OF j(1)] show ?thesis
    proof
      assume "claims c j t r"
      then show ?thesis using old v(2) by (auto intro: less_imp_le)
    next
      assume "j = i \<and> t = tok \<and> r = rev_counter (cstore c')"
      then show ?thesis using v o(1) by simp
    qed
  next
    case False
    then have e: "mock_contents (cstore c) (key (insts c j)) = Some (v, r')" and cl: "claims c j t r"
      using j(2) entry o(2) claims [OF j(1)] by auto
    then show ?thesis using inv(5,6) [OF cl] o(1) by auto
  qed
  moreover have "\<not> wants_takeover (cfg (insts c' j))" for j using assms(2) inv(2) by simp
  ultimately show ?thesis using assms(3) unfolding cinv_def by blast
qed

lemma expire_simps:
  "mock_contents (expire k m) = (mock_contents m)(k := None)" "rev_counter (expire k m) = rev_counter m"
  "mock_ok m \<Longrightarrow> mock_ok (expire k m)"
  by (auto simp: expire_def mock_ok_def)

text \<open>The claims after a step of instance \<open>i\<close>.\<close>

lemma claims_upd:
  "claims (c\<lparr>insts := (insts c)(i := e'), cstore := st, ctoks := n\<rparr>) j tok r \<longleftrightarrow>
     (if j = i then isLeader e' \<and> token e' = tok \<and> revision e' = r \<or> (i, tok, r) \<in> pend c else claims c j tok r)"
  by (auto simp: claims_def)

lemma claims_upd_lf:
  "lf (insts c i) e' \<Longrightarrow> claims (c\<lparr>insts := (insts c)(i := e'), cstore := st, ctoks := n\<rparr>) j tok r \<Longrightarrow> claims c j tok r"
  by (auto simp: claims_upd lf_def claims_def split: if_splits)

lemma cinv_inst:
  assumes "cinv c" "mock.reads (insts c i) (cstore c) e' st \<or> mock.writes (insts c i) (cstore c) e' st \<or> mock.deletes (insts c i) (cstore c) e' st"
  shows "cinv (c\<lparr>insts := (insts c)(i := e'), cstore := st, ctoks := n\<rparr>)" (is "cinv ?c")
proof -
  have m: "mock_ok (cstore c)" using cinvD(1) [OF assms(1)] .
  consider (old) "lf (insts c i) e'" "mock_ok st" "rev_counter (cstore c) \<le> rev_counter st"
      "\<And>k v r. mock_contents st k = Some (v, r) \<Longrightarrow> mock_contents (cstore c) k = Some (v, r) \<or> rev_counter (cstore c) < r"
    | (new) "cfg e' = cfg (insts c i)" "key e' = key (insts c i)" "mock_ok st" "rev_counter (cstore c) < rev_counter st"
      "mock_contents st = (mock_contents (cstore c))(key (insts c i) \<mapsto> (json_Marshal (own_payload e' (token e')), rev_counter st))"
      "revision e' = rev_counter st"
    using assms(2)
  proof (elim disjE)
    assume "mock.reads (insts c i) (cstore c) e' st"
    then show ?thesis using m that(1) by (auto simp: mock.reads_def mock.st_eq_def)
  next
    assume "mock.deletes (insts c i) (cstore c) e' st"
    then show ?thesis by (intro that(1)) (auto simp: mock.deletes_def split: if_splits)
  next
    assume w: "mock.writes (insts c i) (cstore c) e' st"
    then obtain v where v: "cfg e' = cfg (insts c i)" "key e' = key (insts c i)" "mock_ok st" "rev_counter (cstore c) < rev_counter st"
      "mock_contents st = (mock_contents (cstore c))(key (insts c i) \<mapsto> (v, rev_counter st))"
      "lf (insts c i) e' \<or> revision e' = rev_counter st \<and> v = json_Marshal (own_payload e' (token e'))"
      by (auto simp: mock.writes_def)
    from v(6) show ?thesis
    proof
      assume "lf (insts c i) e'"
      then show ?thesis using v by (intro that(1)) (auto split: if_splits)
    next
      assume "revision e' = rev_counter st \<and> v = json_Marshal (own_payload e' (token e'))"
      then show ?thesis using v by (intro that(2)) simp_all
    qed
  qed
  then show ?thesis
  proof cases
    case old
    then show ?thesis
      by (intro cinv_old [OF assms(1)]) (use claims_upd_lf [OF old(1)] in \<open>auto simp: lf_def\<close>)
  next
    case new
    then have "own_payload e' = own_payload (insts c i)" using own_payload_cong by blast
    then show ?thesis
      using new by (intro cinv_new [OF assms(1), of ?c i "token e'"]) (auto simp: claims_upd claims_def split: if_splits)
  qed
qed

lemma created_effect:
  assumes "acquire_won now tok rv (view c i) = Done (err, w')"
  shows "isLeader (el w')" "token (el w') = tok" "revision (el w') = rv" "cfg (el w') = cfg (insts c i)" "key (el w') = key (insts c i)"
  using assms by (auto simp: acquire_won_Done view_def)

lemma claims_created:
  assumes "(i, tok, rv) \<in> pend c" "acquire_won now tok rv (view c i) = Done (err, w')"
  shows "claims (c\<lparr>insts := (insts c)(i := el w'), pend := pend c - {(i, tok, rv)}\<rparr>) j t r \<Longrightarrow> claims c j t r"
  using assms(1) created_effect [OF assms(2)] by (auto simp: claims_def split: if_splits)

lemma create_effect:
  assumes "cinv c" "rev_counter (cstore c) < max_rev"
    and "Create MockKeyValueAdapter (key (insts c i)) v opts (cstore c) = (Inr rv, st)"
  shows "mock_contents (cstore c) (key (insts c i)) = None" "mock_contents st = (mock_contents (cstore c))(key (insts c i) \<mapsto> (v, rv))"
    "rev_counter (cstore c) < rv" "rev_counter st = rv" "mock_ok st"
  using mock.create_ok [OF cinvD(1) [OF assms(1)] assms(2,3)] by blast+

lemma cstep_inst_effect:
  assumes "cinv c" "step uuid MockKeyValueAdapter l (view c i) w'" "l \<noteq> OpStore" "l \<noteq> OpCreated" "rev_counter (cstore c) < max_rev"
  shows "mock.reads (insts c i) (cstore c) (el w') (store w') \<or> mock.writes (insts c i) (cstore c) (el w') (store w') \<or>
    l = OpStopWithContext True \<and> mock.deletes (insts c i) (cstore c) (el w') (store w')"
  using mock.step_effect [OF assms(2-4)] cinvD(1,2) [OF assms(1)] assms(5) by (simp add: view_def)

lemma cinv_step:
  assumes "cinv c" "cstep uuid l c c'"
  shows "cinv c'"
  using assms(2)
proof cases
  case (cstep_inst op i w')
  then show ?thesis using cstep_inst_effect [OF assms(1) cstep_inst(3-6)] cinv_inst [OF assms(1)] by blast
next
  case (cstep_create tok i rv st)
  note e = create_effect [OF assms(1) cstep_create(4,5)]
  show ?thesis
    unfolding cstep_create(2)
    by (rule cinv_new [OF assms(1), of _ i tok]) (use e in \<open>auto simp: claims_def\<close>)
next
  case (cstep_created i tok rv now err w')
  have "claims c' j t r \<Longrightarrow> claims c j t r" for j t r
    unfolding cstep_created(2) by (rule claims_created [OF cstep_created(3,4)])
  then show ?thesis
    using created_effect [OF cstep_created(4)] cinvD(1) [OF assms(1)] cstep_created(2) by (intro cinv_old [OF assms(1)]) auto
next
  case (cstep_expire k)
  then show ?thesis
    using cinvD(1) [OF assms(1)] by (intro cinv_old [OF assms(1)]) (auto simp: expire_simps claims_def split: if_splits)
qed

lemma cinit_no_leader: "cinit c \<Longrightarrow> \<not> isLeader (insts c i)"
  unfolding cinit_def init_election_def by (metis kvElection.select_convs(3))

lemma cinit_no_claim: "cinit c \<Longrightarrow> \<not> claims c i tok r"
  using cinit_no_leader [of c i] by (auto simp: claims_def cinit_def)

lemma cinv_init: "cinit c \<Longrightarrow> cinv c"
  using cinit_no_claim [of c]
  by (auto simp: cinit_def cinv_def NewMockKeyValue_def mock_ok_def init_election_def) (metis init_election_def kvElection.select_convs(1))

interpretation csys: invariant_system cinit "cstep uuid" cinv for uuid
  by unfold_locales (auto intro: cinv_init cinv_step)

text \<open>Steps that remove no key from the store.\<close>

fun keeps_keys :: "cop \<Rightarrow> bool" where
  "keeps_keys (Inst i (OpStopWithContext del)) = (\<not> del)"
| "keeps_keys (Inst i l) = True"
| "keeps_keys (CreateDone i) = True"
| "keeps_keys (CreateSeen i) = True"
| "keeps_keys (Expire k) = False"

subsection \<open>A run of two instances\<close>

text \<open>
  Two instances of one group are started, the first acquires the key, the key expires, the second
  acquires it: each state is reachable, and each acquisition is a step of the cluster.
\<close>

definition demo_cluster :: cluster where
  "demo_cluster = \<lparr>insts = \<lambda>i. init_election (demo_config ''n'') False, cstore = NewMockKeyValue, ctoks = 0, pend = {}\<rparr>"

definition candidate :: kvElection where
  "candidate = (init_election (demo_config ''n'') False)\<lparr>contexts := [Background], ctx := Some 0, cancel := Some 0,
     state := StateCandidate, lastTransition := Some 0, gos := [Go_startAcquire], wg := 1\<rparr>"

text \<open>The leader made of a candidate by its attempt at revision \<open>rv\<close>, and the store it leaves.\<close>

definition winner :: "u64 \<Rightarrow> kvElection" where
  "winner rv = promoted 1 ''tok'' rv (recordAcquireAttempt ''success'' candidate)"

definition won_store :: "u64 \<Rightarrow> MockKeyValue" where
  "won_store rv = NewMockKeyValue\<lparr>rev_counter := rv, data := Map.empty (Group (demo_config ''n'') \<mapsto>
     \<lparr>me_Value = json_Marshal (own_payload candidate ''tok''), me_Rev = rv\<rparr>)\<rparr>"

lemma demo_start:
  assumes "insts c i = insts demo_cluster i" "rev_counter (cstore c) < max_rev"
  shows "cstep (\<lambda>_. ''tok'') (Inst i OpStart) c (c\<lparr>insts := (insts c)(i := candidate)\<rparr>)"
proof -
  have "Start 0 Background (el (view c i)) = Done (None, candidate)"
    using assms(1) by (subst Start_fresh)
      (simp_all add: view_def demo_cluster_def init_election_def candidate_def running_def Background_def)
  from cstep_inst [OF step_start [OF this] _ _ assms(2), of "\<lambda>_. ''tok''"] show ?thesis by (simp add: view_def)
qed

lemma demo_win:
  assumes "insts c i = candidate" "cstore c = NewMockKeyValue\<lparr>rev_counter := n\<rparr>" "n < max_rev"
  shows "\<exists>t. cstep (\<lambda>_. ''tok'') (Inst i OpAcquire) c
    (c\<lparr>insts := (insts c)(i := winner (n + 1)), cstore := won_store (n + 1), ctoks := t\<rparr>)"
proof -
  have "attemptAcquire (\<lambda>_. ''tok'') MockKeyValueAdapter 1 (view c i) =
      Some (Done (None, \<lparr>el = winner (n + 1), store = won_store (n + 1), uuids = ctoks c + 1\<rparr>))"
    using assms(1,2)
    by (subst attemptAcquire.simps)
      (simp add: view_def candidate_def init_election_def MockKeyValueAdapter_def mock_Create_def NewMockKeyValue_def
        Let_def acquire_won_Done log_ok_def can_log_def Background_def winner_def won_store_def)
  from cstep_inst [OF step_acquire [OF this]] assms(2,3) have "cstep (\<lambda>_. ''tok'') (Inst i OpAcquire) c
    (c\<lparr>insts := (insts c)(i := winner (n + 1)), cstore := won_store (n + 1), ctoks := ctoks c + 1\<rparr>)" by simp
  then show ?thesis by blast
qed

lemma winner_simps [simp]:
  "isLeader (winner rv)" "revision (winner rv) = rv" "key (winner rv) = Group (demo_config ''n'')" "token (winner rv) = ''tok''"
  "cfg (winner rv) = demo_config ''n''"
  by (simp_all add: winner_def candidate_def init_election_def)

definition both :: "nat \<Rightarrow> kvElection" where
  "both = (insts demo_cluster)(0 := candidate, 1 := candidate)"

lemma both_simps [simp]: "both 0 = candidate" "both (Suc 0) = candidate"
  by (simp_all add: both_def)

lemma demo_run:
  assumes "\<And>l c c'. keeps_keys l \<Longrightarrow> cstep (\<lambda>_. ''tok'') l c c' \<Longrightarrow> stp l c c'"
  shows "\<exists>t. reachable cinit stp \<lparr>insts = both(0 := winner 1), cstore = won_store 1, ctoks = t, pend = {}\<rparr>"
proof -
  let ?c1 = "demo_cluster\<lparr>insts := (insts demo_cluster)(0 := candidate)\<rparr>"
  let ?c2 = "\<lparr>insts = both, cstore = NewMockKeyValue, ctoks = 0, pend = {}\<rparr>"
  have "cinit demo_cluster"
    by (auto simp: cinit_def demo_cluster_def wants_takeover_def)
  then have r0: "reachable cinit stp demo_cluster" by (rule reachable_init)
  have "stp (Inst 0 OpStart) demo_cluster ?c1"
    by (rule assms, simp, rule demo_start) (simp_all add: demo_cluster_def NewMockKeyValue_def)
  with r0 have r1: "reachable cinit stp ?c1" by (rule reachable_step)
  have "cstep (\<lambda>_. ''tok'') (Inst 1 OpStart) ?c1 (?c1\<lparr>insts := (insts ?c1)(1 := candidate)\<rparr>)"
    by (rule demo_start) (simp_all add: demo_cluster_def NewMockKeyValue_def)
  moreover have "?c1\<lparr>insts := (insts ?c1)(1 := candidate)\<rparr> = ?c2" by (simp add: demo_cluster_def both_def)
  ultimately have "stp (Inst 1 OpStart) ?c1 ?c2" using assms by simp
  with r1 have r2: "reachable cinit stp ?c2" by (rule reachable_step)
  obtain t where "cstep (\<lambda>_. ''tok'') (Inst 0 OpAcquire) ?c2 (?c2\<lparr>insts := (insts ?c2)(0 := winner (0 + 1)), cstore := won_store (0 + 1), ctoks := t\<rparr>)"
    using demo_win [of ?c2 0 0] by (auto simp: NewMockKeyValue_def)
  then have "stp (Inst 0 OpAcquire) ?c2 \<lparr>insts = both(0 := winner 1), cstore = won_store 1, ctoks = t, pend = {}\<rparr>" using assms by simp
  with r2 show ?thesis using reachable_step by metis
qed

subsection \<open>Safety\<close>

text \<open>The leader's entry is the one in the store.\<close>

definition current :: "cluster \<Rightarrow> nat \<Rightarrow> bool" where
  "current c i \<longleftrightarrow> isLeader (insts c i) \<and>
     (\<exists>v. mock_contents (cstore c) (key (insts c i)) = Some (v, revision (insts c i)))"

text \<open>
  C1: However the operations of any number of instances without takeover interleave, with keys
  expiring or being deleted at any time, heartbeats timing out, updates arriving late and answers to
  \<open>Create\<close> coming late: of the instances of one group that believe they lead, at most one has the stored
  revision, and the stored value is then its own payload with its own token.
\<close>

theorem at_most_one_current_leader:
  assumes "reachable cinit (cstep uuid) c" "current c i" "current c j" "key (insts c i) = key (insts c j)"
  shows "i = j \<and> mock_contents (cstore c) (key (insts c i)) =
    Some (json_Marshal (own_payload (insts c i) (token (insts c i))), revision (insts c i))"
proof -
  note inv = cinvD [OF csys.reachable_inv [OF assms(1)]]
  obtain v where v: "isLeader (insts c i)" "mock_contents (cstore c) (key (insts c i)) = Some (v, revision (insts c i))"
    using assms(2) by (auto simp: current_def)
  have j: "isLeader (insts c j)" "revision (insts c j) = revision (insts c i)"
    using assms(3,4) v(2) by (auto simp: current_def)
  have "i = j" using inv(4) [OF claims_leader [OF v(1)]] claims_leader [OF j(1)] j(2) by metis
  then show ?thesis using v(2) inv(6) [OF claims_leader [OF v(1)] v(2)] by simp
qed

theorem at_most_one_current_leader_witness:
  "\<exists>c. reachable cinit (cstep (\<lambda>_. ''tok'')) c \<and> current c 0 \<and> (\<forall>j. current c j \<longrightarrow> key (insts c j) = key (insts c 0) \<longrightarrow> j = 0)"
proof -
  obtain t where r: "reachable cinit (cstep (\<lambda>_. ''tok'')) \<lparr>insts = both(0 := winner 1), cstore = won_store 1, ctoks = t, pend = {}\<rparr>"
    using demo_run [of "cstep (\<lambda>_. ''tok'')"] by blast
  have c: "current \<lparr>insts = both(0 := winner 1), cstore = won_store 1, ctoks = t, pend = {}\<rparr> 0"
    by (simp add: current_def won_store_def mock_contents_def)
  show ?thesis
    using r c at_most_one_current_leader [OF r _ c] by blast
qed

text \<open>
  C8: Revisions order the leaderships of a group. An instance without takeover that becomes leader by an
  attempt answered at once has the stored revision, and it is larger than that of every instance that
  believes it leads at that moment. If it becomes leader by a late answer to its \<open>Create\<close>, then either its
  revision is still the stored one, and it is larger than that of every other leader of its group; or the
  key is gone, or another has taken it since, and the stored revision is the larger one. So the leader with
  the stored revision has the largest revision of all leaders of the group, and a resource that rejects
  smaller revisions than it has seen rejects the others.
\<close>

theorem new_leader_revision_largest:
  assumes "reachable cinit (cstep uuid) c" "cstep uuid l c c'" "\<not> isLeader (insts c i)" "isLeader (insts c' i)"
  shows "if (i, token (insts c' i), revision (insts c' i)) \<in> pend c
    then (if current c' i
          then \<forall>j. isLeader (insts c j) \<and> key (insts c j) = key (insts c i) \<longrightarrow> revision (insts c j) < revision (insts c' i)
          else \<forall>v r. mock_contents (cstore c') (key (insts c i)) = Some (v, r) \<longrightarrow> revision (insts c' i) < r)
    else current c' i \<and> (\<forall>j. isLeader (insts c j) \<longrightarrow> revision (insts c j) < revision (insts c' i))"
  using assms(2)
proof cases
  case (cstep_inst op k w')
  note inv = cinvD [OF csys.reachable_inv [OF assms(1)]]
  have k: "k = i" using assms(3,4) cstep_inst(2) by (auto split: if_splits)
  have "\<not> lf (insts c i) (el w')" using assms(3,4) cstep_inst(2) k by (auto simp: lf_def)
  then have w: "mock.writes (insts c i) (cstore c) (el w') (store w')"
    using cstep_inst_effect [OF csys.reachable_inv [OF assms(1)] cstep_inst(3-6)] k
    by (auto simp: mock.reads_def mock.deletes_def)
  then have r: "revision (el w') = rev_counter (store w')" "rev_counter (cstore c) < rev_counter (store w')" and cur: "current c' i"
    using \<open>\<not> lf (insts c i) (el w')\<close> cstep_inst(2) k by (auto simp: mock.writes_def current_def)
  have "r < revision (insts c' i)" if "claims c j t r" for j t r
    using inv(3) [OF that] r cstep_inst(2) k by (auto intro: le_less_trans)
  then show ?thesis using cur by (auto simp: claims_def)
next
  case (cstep_created k tok rv now err w')
  note inv = cinvD [OF csys.reachable_inv [OF assms(1)]]
  have k: "k = i" using assms(3,4) cstep_created(2) by (auto split: if_splits)
  have i: "token (insts c' i) = tok" "revision (insts c' i) = rv" "key (insts c' i) = key (insts c i)" "cstore c' = cstore c"
    using created_effect [OF cstep_created(4)] cstep_created(2) k by simp_all
  have p: "claims c i tok rv" "(i, tok, rv) \<in> pend c" using cstep_created(3) k by (simp_all add: claims_def)
  have "revision (insts c j) < rv" if "current c' i" "isLeader (insts c j)" "key (insts c j) = key (insts c i)" for j
  proof -
    have "revision (insts c j) \<le> rv"
      using that(1,3) i inv(5) [OF claims_leader [OF that(2)]] by (auto simp: current_def)
    moreover have "revision (insts c j) \<noteq> rv" using inv(4) [OF p(1), of j] claims_leader [OF that(2)] that(2) assms(3) by metis
    ultimately show ?thesis by simp
  qed
  moreover have "rv < r" if "\<not> current c' i" "mock_contents (cstore c') (key (insts c i)) = Some (v, r)" for v r
  proof -
    have "rv \<le> r" using inv(5) [OF p(1)] that(2) i(4) by auto
    moreover have "rv \<noteq> r" using that i assms(4) by (auto simp: current_def)
    ultimately show ?thesis by simp
  qed
  ultimately show ?thesis using i(1,2) p(2) by simp
qed (use assms(3,4) in auto)

theorem new_leader_revision_largest_witness:
  "\<exists>c l c'. reachable cinit (cstep (\<lambda>_. ''tok'')) c \<and> cstep (\<lambda>_. ''tok'') l c c' \<and> isLeader (insts c 0) \<and>
    isLeader (insts c' 1) \<and> revision (insts c 0) < revision (insts c' 1)"
proof -
  obtain t where r: "reachable cinit (cstep (\<lambda>_. ''tok'')) \<lparr>insts = both(0 := winner 1), cstore = won_store 1, ctoks = t, pend = {}\<rparr>"
    using demo_run [of "cstep (\<lambda>_. ''tok'')"] by blast
  let ?b = "\<lparr>insts = both(0 := winner 1), cstore = won_store 1, ctoks = t, pend = {}\<rparr>"
  let ?c = "\<lparr>insts = both(0 := winner 1), cstore = NewMockKeyValue\<lparr>rev_counter := 1\<rparr>, ctoks = t, pend = {}\<rparr>"
  have "expire (Group (demo_config ''n'')) (won_store 1) = NewMockKeyValue\<lparr>rev_counter := 1\<rparr>"
    by (simp add: expire_def won_store_def NewMockKeyValue_def)
  moreover have "cstep (\<lambda>_. ''tok'') (Expire (Group (demo_config ''n''))) ?b (?b\<lparr>cstore := expire (Group (demo_config ''n'')) (cstore ?b)\<rparr>)"
    by (rule cstep_expire)
  ultimately have "cstep (\<lambda>_. ''tok'') (Expire (Group (demo_config ''n''))) ?b ?c" by simp
  with r have rc: "reachable cinit (cstep (\<lambda>_. ''tok'')) ?c" by (rule reachable_step)
  obtain t' where s: "cstep (\<lambda>_. ''tok'') (Inst 1 OpAcquire) ?c
      (?c\<lparr>insts := (insts ?c)(1 := winner (1 + 1)), cstore := won_store (1 + 1), ctoks := t'\<rparr>)"
    using demo_win [of ?c 1 1] by auto
  have "\<not> isLeader candidate" by (simp add: candidate_def init_election_def)
  then have "revision (insts ?c 0) < revision (insts (?c\<lparr>insts := (insts ?c)(1 := winner (1 + 1)), cstore := won_store (1 + 1), ctoks := t'\<rparr>) 1)"
    using new_leader_revision_largest [OF rc s, of 1] by simp
  with rc s show ?thesis by (intro exI conjI) (assumption | simp)+
qed

definition keeping :: "(nat \<Rightarrow> string) \<Rightarrow> cop \<Rightarrow> cluster \<Rightarrow> cluster \<Rightarrow> bool" where
  "keeping uuid l c c' \<longleftrightarrow> keeps_keys l \<and> cstep uuid l c c'"

definition sole :: "cluster \<Rightarrow> bool" where
  "sole c \<longleftrightarrow> cinv c \<and> (\<forall>i tok r. claims c i tok r \<longrightarrow> mock_contents (cstore c) (key (insts c i)) \<noteq> None) \<and>
     (\<forall>i tok r j tok' r'. claims c i tok r \<longrightarrow> claims c j tok' r' \<longrightarrow> key (insts c i) = key (insts c j) \<longrightarrow> i = j)"

lemma sole_old:
  assumes "sole c" "cinv c'" "\<And>j. key (insts c' j) = key (insts c j)" "\<And>j tok r. claims c' j tok r \<Longrightarrow> \<exists>tok r. claims c j tok r"
    and "\<And>k. mock_contents (cstore c) k \<noteq> None \<Longrightarrow> mock_contents (cstore c') k \<noteq> None"
  shows "sole c'"
proof -
  have old: "\<exists>tok r. claims c j tok r" "key (insts c' j) = key (insts c j)" if "claims c' j tok r" for j tok r
    using assms(3,4) that by blast+
  have "mock_contents (cstore c') (key (insts c' j)) \<noteq> None" if "claims c' j tok r" for j tok r
    using old [OF that] assms(1,5) unfolding sole_def by metis
  moreover have "j = k" if "claims c' j tok r" "claims c' k tok' r'" "key (insts c' j) = key (insts c' k)" for j tok r k tok' r'
    using old [OF that(1)] old [OF that(2)] that(3) assms(1) unfolding sole_def by metis
  ultimately show ?thesis using assms(2) unfolding sole_def by blast
qed

lemma sole_new:
  assumes "sole c" "cinv c'" "\<And>j. key (insts c' j) = key (insts c j)"
    and claims: "\<And>j t r. claims c' j t r \<Longrightarrow> claims c j t r \<or> j = i"
    and "mock_contents (cstore c) (key (insts c i)) = None" "mock_contents (cstore c') (key (insts c i)) \<noteq> None"
    and "\<And>k. mock_contents (cstore c) k \<noteq> None \<Longrightarrow> mock_contents (cstore c') k \<noteq> None"
  shows "sole c'"
proof -
  have vacant: "key (insts c j) \<noteq> key (insts c i)" if "claims c j t r" for j t r
    using that assms(1,5) unfolding sole_def by metis
  have "mock_contents (cstore c') (key (insts c' j)) \<noteq> None" if "claims c' j t r" for j t r
    using claims [OF that] assms(1,3,6,7) unfolding sole_def by metis
  moreover have "j = k" if "claims c' j t r" "claims c' k t' r'" "key (insts c' j) = key (insts c' k)" for j t r k t' r'
    using claims [OF that(1)] claims [OF that(2)] that(3) vacant assms(1,3) unfolding sole_def by metis
  ultimately show ?thesis using assms(2) unfolding sole_def by blast
qed

lemma sole_step:
  assumes "sole c" "keeping uuid l c c'"
  shows "sole c'"
proof -
  have inv: "cinv c" and k: "keeps_keys l" and st: "cstep uuid l c c'" using assms by (simp_all add: sole_def keeping_def)
  have inv': "cinv c'" using cinv_step [OF inv st] .
  from st show ?thesis
  proof cases
    case (cstep_inst op i w')
    have nd: "op \<noteq> OpStopWithContext True" using k cstep_inst(1) by auto
    have e: "mock.reads (insts c i) (cstore c) (el w') (store w') \<or> mock.writes (insts c i) (cstore c) (el w') (store w')"
      using cstep_inst_effect [OF inv cstep_inst(3-6)] nd by blast
    have key: "key (insts c' j) = key (insts c j)" for j
      using e cstep_inst(2) by (auto simp: mock.reads_def mock.writes_def lf_def)
    have pres: "mock_contents (cstore c') x \<noteq> None" if "mock_contents (cstore c) x \<noteq> None" for x
      using e that cstep_inst(2) by (auto simp: mock.reads_def mock.writes_def mock.st_eq_def)
    show ?thesis
    proof (cases "isLeader (el w') \<and> \<not> isLeader (insts c i)")
      case True
      then have "mock_contents (cstore c) (key (insts c i)) = None" "mock_contents (cstore c') (key (insts c i)) \<noteq> None"
        using e cstep_inst(2) by (auto simp: mock.reads_def mock.writes_def lf_def)
      then show ?thesis
        using pres key by (intro sole_new [OF assms(1) inv', of i]) (auto simp: cstep_inst(2) claims_upd split: if_splits)
    next
      case False
      then show ?thesis
        using pres key by (intro sole_old [OF assms(1) inv']) (auto simp: cstep_inst(2) claims_def split: if_splits)
    qed
  next
    case (cstep_create tok i rv st)
    note e = create_effect [OF inv cstep_create(4,5)]
    show ?thesis
      using e by (intro sole_new [OF assms(1) inv', of i]) (auto simp: cstep_create(2) claims_def split: if_splits)
  next
    case (cstep_created i tok rv now err w')
    have "claims c' j t r \<Longrightarrow> claims c j t r" for j t r
      unfolding cstep_created(2) by (rule claims_created [OF cstep_created(3,4)])
    moreover have "key (insts c' j) = key (insts c j)" "cstore c' = cstore c" for j
      using created_effect(5) [OF cstep_created(4)] cstep_created(2) by simp_all
    ultimately show ?thesis by (intro sole_old [OF assms(1) inv']) (auto, blast)
  next
    case (cstep_expire x)
    then show ?thesis using k by simp
  qed
qed

interpretation sole_sys: invariant_system cinit "keeping uuid" sole for uuid
proof (unfold_locales, goal_cases)
  case (1 c)
  then show ?case by (simp add: sole_def cinv_init cinit_no_claim)
next
  case (2 c l c')
  then show ?case by (rule sole_step)
qed

text \<open>
  C3: As long as no key expires and none is deleted, at most one of the instances of a group without
  takeover believes it is the leader, in every reachable state of the cluster. (With takeover the old leader
  believes it until its next heartbeat.)
\<close>

theorem at_most_one_leader:
  assumes "reachable cinit (keeping uuid) c" "isLeader (insts c i)" "isLeader (insts c j)" "key (insts c i) = key (insts c j)"
  shows "i = j"
  using sole_sys.reachable_inv [OF assms(1)] claims_leader [OF assms(2)] claims_leader [OF assms(3)] assms(4)
  unfolding sole_def by blast

theorem at_most_one_leader_witness:
  "\<exists>c. reachable cinit (keeping (\<lambda>_. ''tok'')) c \<and> isLeader (insts c 0) \<and>
    (\<forall>j. isLeader (insts c j) \<longrightarrow> key (insts c j) = key (insts c 0) \<longrightarrow> j = 0)"
proof -
  obtain t where r: "reachable cinit (keeping (\<lambda>_. ''tok'')) \<lparr>insts = both(0 := winner 1), cstore = won_store 1, ctoks = t, pend = {}\<rparr>"
    using demo_run [of "keeping (\<lambda>_. ''tok'')"] by (auto simp: keeping_def)
  moreover have l: "isLeader (insts \<lparr>insts = both(0 := winner 1), cstore = won_store 1, ctoks = t, pend = {}\<rparr> 0)" by simp
  ultimately show ?thesis using at_most_one_leader [OF r _ l] by blast
qed

end
