(* ===== verification/Lease.thy ===== *)
theory Lease
  imports Cluster
begin

text \<open>
  What the cluster promises, as an abstract machine: a lock service with fencing. For every key there
  is at most one holder, with a token and an epoch; a key is taken only while it has no holder; every
  taking and every renewal uses a larger epoch than all before. The cluster of instances without
  takeover refines it: the holder of a key is the instance whose revision is the stored one, as a leader or
  as one that the answer to its \<open>Create\<close> has not reached yet.
\<close>

subsection \<open>The abstract machine\<close>

record lease =
  lholder :: "string \<rightharpoonup> nat \<times> string \<times> u64"
  lepoch :: u64

datatype lease_op = Grab string nat string | Renew string nat | Release string | Idle

inductive lease_step :: "lease_op \<Rightarrow> lease \<Rightarrow> lease \<Rightarrow> bool" where
  lease_grab: "lholder s k = None \<Longrightarrow> lepoch s < n \<Longrightarrow>
    lease_step (Grab k i tok) s (s\<lparr>lholder := (lholder s)(k := Some (i, tok, n)), lepoch := n\<rparr>)"
| lease_renew: "lholder s k = Some (i, tok, r) \<Longrightarrow> lepoch s < n \<Longrightarrow>
    lease_step (Renew k i) s (s\<lparr>lholder := (lholder s)(k := Some (i, tok, n)), lepoch := n\<rparr>)"
| lease_release: "lepoch s \<le> n \<Longrightarrow> lease_step (Release k) s (s\<lparr>lholder := (lholder s)(k := None), lepoch := n\<rparr>)"
| lease_idle: "lease_step Idle s s"

inductive_cases lease_grabE: "lease_step (Grab k i tok) s s'"
inductive_cases lease_renewE: "lease_step (Renew k i) s s'"

definition lease_init :: "lease \<Rightarrow> bool" where
  "lease_init s \<longleftrightarrow> s = \<lparr>lholder = Map.empty, lepoch = 0\<rparr>"

text \<open>Epochs never exceed the last one, and no two keys share one.\<close>

definition lease_inv :: "lease \<Rightarrow> bool" where
  "lease_inv s \<longleftrightarrow> (\<forall>k i tok r. lholder s k = Some (i, tok, r) \<longrightarrow> r \<le> lepoch s) \<and>
     (\<forall>k k' i tok r i' tok'. lholder s k = Some (i, tok, r) \<longrightarrow> lholder s k' = Some (i', tok', r) \<longrightarrow> k = k')"

lemma lease_inv_take:
  assumes "lease_inv s" "lepoch s < n"
  shows "lease_inv (s\<lparr>lholder := (lholder s)(k := Some (i, tok, n)), lepoch := n\<rparr>)"
proof -
  have b: "r < n" if "lholder s x = Some (a, t, r)" for x a t r
    using that assms le_less_trans unfolding lease_inv_def by blast
  show ?thesis
    unfolding lease_inv_def
  proof (intro conjI allI impI, goal_cases)
    case (1 x a t r)
    then show ?case using b by (auto split: if_splits intro: less_imp_le)
  next
    case (2 x y a t r a' t')
    then show ?case using b assms(1) unfolding lease_inv_def by (auto split: if_splits)
  qed
qed

lemma lease_inv_drop:
  assumes "lease_inv s" "lepoch s \<le> n"
  shows "lease_inv (s\<lparr>lholder := (lholder s)(k := None), lepoch := n\<rparr>)"
proof -
  have b: "r \<le> n" if "lholder s x = Some (a, t, r)" for x a t r
    using that assms order_trans unfolding lease_inv_def by blast
  show ?thesis using b assms(1) unfolding lease_inv_def by (auto split: if_splits)
qed

interpretation lease_sys: invariant_system lease_init lease_step lease_inv
proof (unfold_locales, goal_cases)
  case (1 s)
  then show ?case by (simp add: lease_init_def lease_inv_def)
next
  case (2 s l s')
  from 2(2,1) show ?case by cases (simp_all add: lease_inv_take lease_inv_drop)
qed

subsection \<open>The simulation relation\<close>

definition holds :: "cluster \<Rightarrow> string \<Rightarrow> nat \<Rightarrow> string \<Rightarrow> u64 \<Rightarrow> bool" where
  "holds c k i tok r \<longleftrightarrow> claims c i tok r \<and> key (insts c i) = k \<and> (\<exists>v. mock_contents (cstore c) k = Some (v, r))"

definition lease_rel :: "cluster \<Rightarrow> lease \<Rightarrow> bool" where
  "lease_rel c s \<longleftrightarrow> lepoch s = rev_counter (cstore c) \<and>
     (\<forall>k i tok r. lholder s k = Some (i, tok, r) \<longleftrightarrow> holds c k i tok r)"

lemma lease_rel_init: "cinit c \<Longrightarrow> lease_rel c \<lparr>lholder = Map.empty, lepoch = 0\<rparr>"
  using cinit_no_claim [of c] by (auto simp: lease_rel_def holds_def cinit_def NewMockKeyValue_def)

lemma holds_unique: "cinv c \<Longrightarrow> holds c k i tok r \<Longrightarrow> holds c k j tok' r' \<Longrightarrow> i = j \<and> tok = tok' \<and> r = r'"
  using cinvD(4) unfolding holds_def by (metis option.inject prod.inject)

text \<open>A step of the cluster concerns one key.\<close>

lemma lease_rel_key:
  assumes "lease_rel c s" "\<And>x i tok r. x \<noteq> k \<Longrightarrow> holds c' x i tok r \<longleftrightarrow> holds c x i tok r"
    and "\<And>i tok r. h = Some (i, tok, r) \<longleftrightarrow> holds c' k i tok r"
  shows "lease_rel c' (s\<lparr>lholder := (lholder s)(k := h), lepoch := rev_counter (cstore c')\<rparr>)"
  using assms by (simp add: lease_rel_def)

lemma lease_rel_None:
  assumes "lease_rel c s" "mock_contents (cstore c) k = None"
  shows "lholder s k = None"
proof (rule ccontr)
  assume "lholder s k \<noteq> None"
  then obtain i tok r where "lholder s k = Some (i, tok, r)" by (metis not_None_eq prod_cases3)
  then have "holds c k i tok r" using assms(1) by (simp add: lease_rel_def)
  then show False using assms(2) by (simp add: holds_def)
qed

text \<open>
  A step that adds no holder: where the holder of the key stays, nothing happens, and otherwise nobody
  holds the key afterwards.
\<close>

lemma drop_sim:
  assumes "cinv c" "lease_rel c s" "rev_counter (cstore c) \<le> rev_counter (cstore c')"
    and "\<And>x i tok r. x \<noteq> k \<Longrightarrow> holds c' x i tok r \<longleftrightarrow> holds c x i tok r"
    and "\<And>i tok r. holds c' k i tok r \<Longrightarrow> holds c k i tok r \<and> rev_counter (cstore c') = rev_counter (cstore c)"
  shows "\<exists>a s'. lease_step a s s' \<and> lease_rel c' s'"
proof (cases "\<exists>i tok r. holds c' k i tok r")
  case True
  then have "rev_counter (cstore c') = rev_counter (cstore c)" using assms(5) by blast
  moreover have "holds c' x i tok r \<longleftrightarrow> holds c x i tok r" for x i tok r
  proof (cases "x = k")
    case True
    then show ?thesis using assms(5) \<open>\<exists>i tok r. holds c' k i tok r\<close> holds_unique [OF assms(1)] by metis
  next
    case False
    then show ?thesis by (rule assms(4))
  qed
  ultimately have "lease_rel c' s" using assms(2) by (simp add: lease_rel_def)
  then show ?thesis using lease_idle by blast
next
  case False
  then have "lease_rel c' (s\<lparr>lholder := (lholder s)(k := None), lepoch := rev_counter (cstore c')\<rparr>)"
    using assms(4) by (intro lease_rel_key [OF assms(2)]) auto
  moreover have "lepoch s \<le> rev_counter (cstore c')" using assms(2,3) by (simp add: lease_rel_def)
  ultimately show ?thesis using lease_release by blast
qed

text \<open>A step that writes the key for one instance: it takes a free key, or renews its own.\<close>

lemma write_sim:
  assumes "lease_rel c s" "rev_counter (cstore c) < rev_counter (cstore c')"
    and "\<And>x j t r. x \<noteq> k \<Longrightarrow> holds c' x j t r \<longleftrightarrow> holds c x j t r"
    and "\<And>j t r. holds c' k j t r \<longleftrightarrow> j = i \<and> t = tok \<and> r = rev_counter (cstore c')"
    and "mock_contents (cstore c) k = None \<or> (\<exists>r. holds c k i tok r)"
  shows "\<exists>a s'. lease_step a s s' \<and> lease_rel c' s'"
proof -
  have ep: "lepoch s < rev_counter (cstore c')" using assms(1,2) by (simp add: lease_rel_def)
  have rel: "lease_rel c' (s\<lparr>lholder := (lholder s)(k := Some (i, tok, rev_counter (cstore c'))), lepoch := rev_counter (cstore c')\<rparr>)"
    using assms(3,4) by (intro lease_rel_key [OF assms(1)]) auto
  from assms(5) show ?thesis
  proof
    assume "mock_contents (cstore c) k = None"
    from lease_grab [OF lease_rel_None [OF assms(1) this] ep] rel show ?thesis by blast
  next
    assume "\<exists>r. holds c k i tok r"
    then obtain r where "lholder s k = Some (i, tok, r)" using assms(1) by (auto simp: lease_rel_def)
    from lease_renew [OF this ep] rel show ?thesis by blast
  qed
qed

subsection \<open>Every step is simulated\<close>

lemma inst_sim:
  assumes "cinv c" "lease_rel c s"
    and e: "mock.reads (insts c i) (cstore c) e' st \<or> mock.writes (insts c i) (cstore c) e' st \<or> mock.deletes (insts c i) (cstore c) e' st"
    and c': "c' = c\<lparr>insts := (insts c)(i := e'), cstore := st, ctoks := n\<rparr>"
  shows "\<exists>a s'. lease_step a s s' \<and> lease_rel c' s'"
proof -
  let ?k = "key (insts c i)"
  have keys: "key (insts c' j) = key (insts c j)" for j
    using e c' by (auto simp: mock.reads_def mock.writes_def mock.deletes_def lf_def)
  have st: "x \<noteq> ?k \<Longrightarrow> mock_contents st x = mock_contents (cstore c) x" "rev_counter (cstore c) \<le> rev_counter st" for x
    using e by (auto simp: mock.reads_def mock.writes_def mock.deletes_def mock.st_eq_def)
  have other: "holds c' x j t r \<longleftrightarrow> holds c x j t r" if "x \<noteq> ?k" for x j t r
    using that st(1) [OF that] keys [of j] by (auto simp: holds_def c' claims_upd)
  show ?thesis
  proof (cases "lf (insts c i) e'")
    case True
    have "holds c ?k j t r \<and> rev_counter st = rev_counter (cstore c)" if h: "holds c' ?k j t r" for j t r
    proof -
      have cl: "claims c j t r" "key (insts c j) = ?k" "\<exists>v. mock_contents st ?k = Some (v, r)"
        using h claims_upd_lf [OF True] keys [of j] by (auto simp: holds_def c')
      have "r \<le> rev_counter (cstore c)" using cinvD(3) [OF assms(1) cl(1)] .
      then show ?thesis using e cl
        by (auto simp: holds_def mock.reads_def mock.writes_def mock.deletes_def mock.st_eq_def)
    qed
    then show ?thesis using other st(2) by (intro drop_sim [OF assms(1,2), of _ ?k]) (auto simp: c')
  next
    case False
    then obtain v where w: "rev_counter (cstore c) < rev_counter st" "mock_contents st ?k = Some (v, rev_counter st)"
        "isLeader e'" "revision e' = rev_counter st"
        "mock_contents (cstore c) ?k = None \<or> isLeader (insts c i) \<and> token e' = token (insts c i) \<and> (\<exists>x. mock_contents (cstore c) ?k = Some (x, revision (insts c i)))"
      using e by (auto simp: mock.reads_def mock.writes_def mock.deletes_def)
    have "\<not> claims c j t (rev_counter st)" for j t using cinvD(3) [OF assms(1), of j t "rev_counter st"] w(1) by auto
    then have "holds c' ?k j t r \<longleftrightarrow> j = i \<and> t = token e' \<and> r = rev_counter st" for j t r
      using w(2-4) keys [of i] keys [of j] by (auto simp: holds_def c' claims_upd claims_def split: if_splits)
    moreover have "mock_contents (cstore c) ?k = None \<or> (\<exists>r. holds c ?k i (token e') r)"
      using w(5) by (auto simp: holds_def claims_def)
    ultimately show ?thesis using other w(1) by (intro write_sim [OF assms(2), of _ ?k i "token e'"]) (auto simp: c')
  qed
qed

lemma cstep_sim:
  assumes "cinv c" "lease_rel c s" "cstep uuid l c c'"
  shows "\<exists>a s'. lease_step a s s' \<and> lease_rel c' s'"
  using assms(3)
proof cases
  case (cstep_inst op i w')
  then show ?thesis
    using cstep_inst_effect [OF assms(1) cstep_inst(3-6)] by (intro inst_sim [OF assms(1,2) _ cstep_inst(2)]) blast
next
  case (cstep_create tok i rv st)
  note e = create_effect [OF assms(1) cstep_create(4,5)]
  have "\<not> claims c j t rv" for j t using cinvD(3) [OF assms(1), of j t rv] e(3) by auto
  then have "holds c' (key (insts c i)) j t r \<longleftrightarrow> j = i \<and> t = tok \<and> r = rv" for j t r
    using e(2) by (auto simp: holds_def cstep_create(2) claims_def)
  moreover have "x \<noteq> key (insts c i) \<Longrightarrow> holds c' x j t r \<longleftrightarrow> holds c x j t r" for x j t r
    using e(2) by (auto simp: holds_def cstep_create(2) claims_def)
  ultimately show ?thesis
    using e(1,3,4) by (intro write_sim [OF assms(2), of _ "key (insts c i)" i tok]) (auto simp: cstep_create(2))
next
  case (cstep_created i tok rv now err w')
  have cl: "claims c' j t r \<Longrightarrow> claims c j t r" for j t r
    unfolding cstep_created(2) by (rule claims_created [OF cstep_created(3,4)])
  have same: "key (insts c' j) = key (insts c j)" "cstore c' = cstore c" for j
    using created_effect(5) [OF cstep_created(4)] cstep_created(2) by simp_all
  have "x \<noteq> key (insts c i) \<Longrightarrow> holds c' x j t r \<longleftrightarrow> holds c x j t r" for x j t r
    using same by (auto simp: holds_def cstep_created(2) claims_def split: if_splits)
  moreover have "holds c' x j t r \<Longrightarrow> holds c x j t r" for x j t r
    using cl same by (auto simp: holds_def)
  ultimately show ?thesis using same(2) by (intro drop_sim [OF assms(1,2), of _ "key (insts c i)"]) auto
next
  case (cstep_expire k)
  then show ?thesis
    by (intro drop_sim [OF assms(1,2), of _ k]) (auto simp: holds_def claims_def expire_simps)
qed

interpretation lease_ref: forward_simulation cinit "cstep uuid" cinv lease_init lease_step lease_rel for uuid
proof (unfold_locales, goal_cases)
  case (1 c)
  then show ?case using lease_rel_init by (auto simp: lease_init_def)
next
  case (2 c s l c')
  then show ?case using cstep_sim by blast
qed

text \<open>
  C2: The cluster of instances without takeover refines the lock service: in every state it can reach, the
  instances that have the stored revision, as leaders or with the answer to their \<open>Create\<close> still under way,
  are the holders of a reachable state of the abstract machine, and every step of the cluster, of whatever
  operation of whatever instance, is a step of the machine: a taking of a key without holder, a renewal by
  the holder, a release, or nothing.
\<close>

theorem cluster_refines_lease:
  assumes "reachable cinit (cstep uuid) c"
  shows "\<exists>s. reachable lease_init lease_step s \<and> lease_rel c s \<and>
    (\<forall>l c'. cstep uuid l c c' \<longrightarrow> (\<exists>a s'. lease_step a s s' \<and> lease_rel c' s'))"
  using lease_ref.reachable_sim [OF assms] cstep_sim [OF csys.reachable_inv [OF assms]] by blast

theorem cluster_refines_lease_witness:
  "\<exists>c s. reachable cinit (cstep (\<lambda>_. ''tok'')) c \<and> reachable lease_init lease_step s \<and> lease_rel c s \<and>
     lholder s (Group (demo_config ''n'')) = Some (0, ''tok'', 1)"
proof -
  obtain t where r: "reachable cinit (cstep (\<lambda>_. ''tok'')) \<lparr>insts = both(0 := winner 1), cstore = won_store 1, ctoks = t, pend = {}\<rparr>"
    using demo_run [of "cstep (\<lambda>_. ''tok'')"] by blast
  have c: "holds \<lparr>insts = both(0 := winner 1), cstore = won_store 1, ctoks = t, pend = {}\<rparr> (Group (demo_config ''n'')) 0 ''tok'' 1"
    by (simp add: holds_def claims_def won_store_def mock_contents_def)
  obtain s where s: "reachable lease_init lease_step s" "lease_rel \<lparr>insts = both(0 := winner 1), cstore = won_store 1, ctoks = t, pend = {}\<rparr> s"
    using cluster_refines_lease [OF r] by blast
  then have "lholder s (Group (demo_config ''n'')) = Some (0, ''tok'', 1)" using c by (simp add: lease_rel_def)
  with r s show ?thesis by blast
qed

end
