(* ===== verification/Timing.thy ===== *)
theory Timing
  imports Backoff Acquire Disconnect
begin

text \<open>
  How long things take: the initial jitter of a round of acquisition (\<open>kv_election.go\<close>), and the
  timeouts that \<open>leader/chaos_test_helpers.go\<close> derives from a timing configuration. Durations wrap
  around at 64 bits.
\<close>

subsection \<open>The initial jitter\<close>

definition initialJitter :: "(float64 \<Rightarrow> int) \<Rightarrow> nat \<Rightarrow> duration" where
  "initialJitter impl bits =
     (let jitterRange = jitterMax - jitterMin
      in i64 (jitterMin + f_to_i64 impl (f_mul (rand_Float64 bits) (f_of_int jitterRange))))"

text \<open>The sleeps of a round all of whose attempts fail: the jitter and a back-off after each attempt but the last.\<close>

definition round_sleeps :: "(float64 \<Rightarrow> int) \<Rightarrow> (nat \<Rightarrow> nat) \<Rightarrow> duration list" where
  "round_sleeps impl bits =
     initialJitter impl (bits 0) # map (\<lambda>retry. CalculateBackoff impl (bits (retry + 1)) DefaultBackoffConfig (int retry)) [0..<maxRetries]"

subsection \<open>Timing configurations\<close>

record TimingConfig =
  tc_TTL :: duration
  tc_HeartbeatInterval :: duration
  tc_DisconnectGracePeriod :: duration
  tc_ValidationInterval :: duration
  tc_InitialJitter :: duration
  tc_KVOperationDelay :: duration
  tc_MaxRetryBackoff :: duration
  tc_PeriodicCheckInterval :: duration
  tc_NATSPropagationBuffer :: duration

definition DefaultTimingConfig :: TimingConfig where
  "DefaultTimingConfig =
     \<lparr>tc_TTL = 0, tc_HeartbeatInterval = 0, tc_DisconnectGracePeriod = 0, tc_ValidationInterval = 0,
      tc_InitialJitter = 100 * Millisecond, tc_KVOperationDelay = 50 * Millisecond, tc_MaxRetryBackoff = 350 * Millisecond,
      tc_PeriodicCheckInterval = 500 * Millisecond, tc_NATSPropagationBuffer = 1 * Second\<rparr>"

definition CalculateInitialAcquisitionTimeout :: "TimingConfig \<Rightarrow> duration" where
  "CalculateInitialAcquisitionTimeout tc =
     (let worstCase = i64 (i64 (tc_InitialJitter tc + tc_KVOperationDelay tc) + tc_MaxRetryBackoff tc)
      in i64 (worstCase + 2 * Second))"

definition CalculateNetworkPartitionTimeout :: "TimingConfig \<Rightarrow> duration \<times> duration" where
  "CalculateNetworkPartitionTimeout tc =
     (let gracePeriod = tc_DisconnectGracePeriod tc;
          gracePeriod = (if gracePeriod = 0 then
              (let gracePeriod = i64 (3 * tc_HeartbeatInterval tc)
               in if gracePeriod < 5 * Second then 5 * Second else gracePeriod)
            else gracePeriod);
          ttlExpiration = tc_TTL tc;
          detectionDelays = i64 (i64 (tc_PeriodicCheckInterval tc + tc_InitialJitter tc) + tc_MaxRetryBackoff tc);
          totalMinimum = i64 (i64 (gracePeriod + ttlExpiration) + detectionDelays);
          sleepDuration = i64 (totalMinimum + tc_NATSPropagationBuffer tc)
      in (sleepDuration, i64 (sleepDuration + 7 * Second)))"

text \<open>The grace period computed here is discarded.\<close>

definition CalculateTTLExpirationTimeout :: "TimingConfig \<Rightarrow> duration \<times> duration" where
  "CalculateTTLExpirationTimeout tc =
     (let ttlExpiration = tc_TTL tc;
          detectionDelays = i64 (i64 (tc_PeriodicCheckInterval tc + tc_InitialJitter tc) + tc_MaxRetryBackoff tc);
          totalMinimum = i64 (ttlExpiration + detectionDelays);
          sleepDuration = i64 (totalMinimum + tc_NATSPropagationBuffer tc)
      in (sleepDuration, i64 (sleepDuration + 8 * Second)))"

definition CalculateImmediateDeletionTimeout :: "TimingConfig \<Rightarrow> duration \<times> duration" where
  "CalculateImmediateDeletionTimeout tc =
     (let detectionDelays = i64 (i64 (tc_PeriodicCheckInterval tc + tc_InitialJitter tc) + tc_MaxRetryBackoff tc);
          totalMinimum = detectionDelays;
          sleepDuration = i64 (totalMinimum + 500 * Millisecond)
      in (sleepDuration, i64 (sleepDuration + 8 * Second)))"

subsection \<open>The length of a round of acquisition\<close>

lemma initialJitter_bounds: "jitterMin \<le> initialJitter impl bits \<and> initialJitter impl bits \<le> jitterMax"
proof -
  let ?r = "of_nat (bits mod 2 ^ 53) / 2 ^ 53 :: rat"
  let ?n = "jitterMax - jitterMin"
  have n: "0 < ?n" "\<bar>?n\<bar> \<le> 2 ^ 53" "0 \<le> jitterMin" "jitterMax < 2 ^ 53" by (simp_all add: jitterMin_def jitterMax_def)
  have "of_nat (bits mod 2 ^ 53) \<le> (of_nat (2 ^ 53) :: rat)"
    by (simp only: of_nat_le_iff mod_le_divisor zero_less_power zero_less_numeral less_imp_le mod_less_divisor)
  then have r: "0 \<le> ?r" "?r \<le> 1" by (simp_all add: divide_le_eq)
  have rn: "0 \<le> ?r * of_int ?n" "?r * of_int ?n \<le> of_int ?n"
    using r n(1) mult_right_mono [of ?r 1 "of_int ?n"] by simp_all
  have nb: "(of_int ?n :: rat) \<le> of_int (2 ^ 54)" using n(2) by (simp only: of_int_le_iff) simp
  have "f_mul (rand_Float64 bits) (f_of_int ?n) = Val (rnd (?r * of_int ?n))"
    using round64_Val [of "?r * of_int ?n" "of_int ?n"] rn repr_int [OF n(2)] small_bound [OF nb]
    by (simp add: f_of_int_small [OF n(2)] rand_Float64_def)
  moreover have f: "0 \<le> rnd (?r * of_int ?n)" "rnd (?r * of_int ?n) \<le> of_int ?n"
    using rnd_nonneg rnd_le rn repr_int [OF n(2)] by blast+
  moreover have "0 \<le> \<lfloor>rnd (?r * of_int ?n)\<rfloor>" "\<lfloor>rnd (?r * of_int ?n)\<rfloor> \<le> ?n" using f by (simp, metis floor_mono floor_of_int)
  moreover have "i64 (jitterMin + x) = jitterMin + x" if "0 \<le> x" "x \<le> ?n" for x
    using that n(3,4) by (intro i64_id) (auto simp: in_i64_def)
  ultimately show ?thesis using f_to_i64_small [OF f(1) order_trans [OF f(2) nb], of impl] by (simp add: initialJitter_def Let_def)
qed

lemma default_backoffs:
  "\<bar>CalculateBackoff impl bits DefaultBackoffConfig 0 - 50 * Millisecond\<bar> \<le> 5 * Millisecond + 1"
  "\<bar>CalculateBackoff impl bits DefaultBackoffConfig 1 - 100 * Millisecond\<bar> \<le> 10 * Millisecond + 1"
  "\<bar>CalculateBackoff impl bits DefaultBackoffConfig 2 - 200 * Millisecond\<bar> \<le> 20 * Millisecond + 1"
  using CalculateBackoff_near [of 0 impl bits] CalculateBackoff_near [of 1 impl bits] CalculateBackoff_near [of 2 impl bits]
  by (simp_all add: default_base_def abs_le_iff)

text \<open>
  C35: For every random draw the sleeps of a round of acquisition that fails four times add up to
  between 325 and 485 milliseconds, up to three nanoseconds, and together with four operations of the
  store of the assumed length they end before the default initial timeout.
\<close>

theorem acquisition_round_length:
  "325 * Millisecond - 3 \<le> sum_list (round_sleeps impl bits) \<and> sum_list (round_sleeps impl bits) \<le> 485 * Millisecond + 3 \<and>
   sum_list (round_sleeps impl bits) + 4 * tc_KVOperationDelay DefaultTimingConfig < CalculateInitialAcquisitionTimeout DefaultTimingConfig"
proof -
  have "[0..<maxRetries] = [0, 1, 2]" by (simp add: maxRetries_def upt_rec)
  then have s: "sum_list (round_sleeps impl bits) = initialJitter impl (bits 0) + CalculateBackoff impl (bits 1) DefaultBackoffConfig 0 +
      CalculateBackoff impl (bits 2) DefaultBackoffConfig 1 + CalculateBackoff impl (bits 3) DefaultBackoffConfig 2"
    by (simp add: round_sleeps_def numeral_2_eq_2 numeral_3_eq_3)
  have t: "CalculateInitialAcquisitionTimeout DefaultTimingConfig = 2500 * Millisecond" "tc_KVOperationDelay DefaultTimingConfig = 50 * Millisecond"
    by (simp_all add: CalculateInitialAcquisitionTimeout_def DefaultTimingConfig_def i64_id in_i64_def Let_def)
  show ?thesis
    unfolding s t
    using initialJitter_bounds [of impl "bits 0"] default_backoffs(1) [of impl "bits 1"] default_backoffs(2) [of impl "bits 2"]
      default_backoffs(3) [of impl "bits 3"]
    by (simp add: jitterMin_def jitterMax_def abs_le_iff)
qed

text \<open>
  These are the sleeps of the loop itself. On a store whose state is the list of the sleeps so far and whose
  \<open>Create\<close> always fails, the loop that appends each of its sleeps ends with exactly \<open>round_sleeps\<close>,
  and as a follower.
\<close>

definition sleep_for :: "duration \<Rightarrow> duration list world \<Rightarrow> duration list world" where
  "sleep_for d w = w\<lparr>store := store w @ [d]\<rparr>"

definition retry_sleep :: "(float64 \<Rightarrow> int) \<Rightarrow> (nat \<Rightarrow> nat) \<Rightarrow> nat \<Rightarrow> duration" where
  "retry_sleep impl bits retry = CalculateBackoff impl (bits (retry + 1)) DefaultBackoffConfig (int retry)"

definition retry_live :: "ctx_id option \<Rightarrow> 's world \<Rightarrow> bool" where
  "retry_live c w \<longleftrightarrow> retry_ready c w \<and> \<not> ctx_done c w"

lemma sleep_for_simps [simp]: "el (sleep_for d w) = el w" "store (sleep_for d w) = store w @ [d]"
  by (simp_all add: sleep_for_def)

lemma retry_live_sleep [simp]: "retry_live c (sleep_for d w) = retry_live c w"
  by (cases c) (simp_all add: retry_live_def retry_ready_def ctx_done_def)

lemma attempt_refused:
  assumes "\<And>k v opts s. Create kv k v opts s = (Inl er, s)" "retry_live c w"
  shows "\<exists>w1. attemptAcquire uuid kv now w = Some (Done (Some er, w1)) \<and> store w1 = store w \<and> retry_live c (record_failed er w1)"
  using assms
  by (subst attemptAcquire.simps)
    (auto simp: retry_live_def retry_ready_def Let_def acquire_failed_Done record_failed_def ctx_done_def get_ctx_def split: option.splits)

lemma retry_loop_sleeps:
  assumes "\<And>k v opts s. Create kv k v opts s = (Inl er, s)" "retry_live c w" "n + retry = maxRetries + 1" "0 < n"
  shows "\<exists>w'. retry_loop uuid kv (\<lambda>i. sleep_for (f i)) clk c n retry w = Some (Done w') \<and> state (el w') = StateFollower \<and>
    store w' = store w @ map f [retry..<maxRetries]"
  using assms(2-4)
proof (induction n arbitrary: retry w)
  case (Suc n)
  obtain w1 where w1: "attemptAcquire uuid kv (clk retry) w = Some (Done (Some er, w1))" "store w1 = store w" "retry_live c (record_failed er w1)"
    using attempt_refused [OF assms(1) Suc.prems(1)] by blast
  define w2 where "w2 = record_failed er w1"
  have w2: "retry_live c w2" "store w2 = store w" using w1(2,3) by (simp_all add: w2_def record_failed_def)
  then have l: "can_log c (contexts (el w2))" "retry_ready c w2" by (simp_all add: retry_live_def retry_ready_def)
  have nd: "\<not> ctx_done c w" using Suc.prems(1) by (simp add: retry_live_def)
  show ?case
  proof (cases "retry = maxRetries")
    case True
    obtain w3 where "follow (clk retry) w2 = Done w3" using follow_ready [OF l(2)] by blast
    moreover from this have "store w3 = store w" "state (el w3) = StateFollower"
      using w2(2) by (auto simp: follow_def becomeFollower_outcome split: if_splits)
    ultimately show ?thesis using True w1(1) l nd by (simp add: w2_def [symmetric] log_then_eq)
  next
    case False
    with Suc.prems(2) have n: "n + (retry + 1) = maxRetries + 1" "0 < n" "retry < maxRetries" by auto
    from Suc.IH [of "sleep_for (f retry) w2" "retry + 1", OF _ n(1,2)] w2 n(3) show ?thesis
      using False w1(1) l nd by (simp add: w2_def [symmetric] case_logWithContext upt_conv_Cons)
  qed
qed simp

lemma round_sleeps_of_retries:
  assumes "\<And>k v opts s. Create kv k v opts s = (Inl er, s)" "retry_live c w" "store w = []"
  shows "\<exists>w'. attemptAcquireWithRetry uuid kv (sleep_for (initialJitter impl (bits 0))) (\<lambda>i. sleep_for (retry_sleep impl bits i)) clk c w = Some (Done w') \<and>
    state (el w') = StateFollower \<and> store w' = round_sleeps impl bits"
proof -
  have "can_log c (contexts (el w))" using assms(2) by (simp add: retry_live_def retry_ready_def)
  then have "attemptAcquireWithRetry uuid kv (sleep_for j) env clk c w = retry_loop uuid kv env clk c (maxRetries + 1) 0 (sleep_for j w)" for j env
    by (simp only: attemptAcquireWithRetry_def case_logWithContext)
  moreover have "round_sleeps impl bits = store (sleep_for (initialJitter impl (bits 0)) w) @ map (retry_sleep impl bits) [0..<maxRetries]"
    using assms(3) by (simp add: round_sleeps_def retry_sleep_def)
  ultimately show ?thesis
    using retry_loop_sleeps [OF assms(1), of c "sleep_for (initialJitter impl (bits 0)) w" "maxRetries + 1" 0] assms(2) by (simp del: retry_loop.simps)
qed

subsection \<open>The timeouts of the chaos scenarios\<close>

text \<open>An election whose timing the configuration describes.\<close>

definition describes :: "TimingConfig \<Rightarrow> ElectionConfig \<Rightarrow> bool" where
  "describes tc c \<longleftrightarrow> tc_TTL tc = TTL c \<and> tc_HeartbeatInterval tc = HeartbeatInterval c \<and>
     tc_DisconnectGracePeriod tc = DisconnectGracePeriod c"

definition moderate :: "TimingConfig \<Rightarrow> bool" where
  "moderate tc \<longleftrightarrow> list_all (\<lambda>d. 0 \<le> d \<and> d < 2 ^ 58)
     [tc_TTL tc, tc_HeartbeatInterval tc, tc_DisconnectGracePeriod tc, tc_InitialJitter tc, tc_KVOperationDelay tc, tc_MaxRetryBackoff tc,
      tc_PeriodicCheckInterval tc, tc_NATSPropagationBuffer tc]"

lemma i64_small: "0 \<le> x \<Longrightarrow> x < 2 ^ 63 \<Longrightarrow> i64 x = x"
  by (rule i64_id) (simp add: in_i64_def)

text \<open>
  For non-negative durations below 2 to the 58 nanoseconds (nine years) no timeout overflows, and the sleep of the
  partition scenario is that of the expiry scenario plus the grace period the election itself uses.
\<close>

lemma timeout_sums:
  assumes "moderate tc" "describes tc c"
  shows "fst (CalculateNetworkPartitionTimeout tc) = fst (CalculateTTLExpirationTimeout tc) + grace_period c"
    and "fst (CalculateTTLExpirationTimeout tc) =
      TTL c + tc_PeriodicCheckInterval tc + tc_InitialJitter tc + tc_MaxRetryBackoff tc + tc_NATSPropagationBuffer tc"
    and "fst (CalculateImmediateDeletionTimeout tc) =
      tc_PeriodicCheckInterval tc + tc_InitialJitter tc + tc_MaxRetryBackoff tc + 500 * Millisecond"
    and "snd (CalculateNetworkPartitionTimeout tc) = fst (CalculateNetworkPartitionTimeout tc) + 7 * Second"
    and "snd (CalculateTTLExpirationTimeout tc) = fst (CalculateTTLExpirationTimeout tc) + 8 * Second"
    and "snd (CalculateImmediateDeletionTimeout tc) = fst (CalculateImmediateDeletionTimeout tc) + 8 * Second"
proof -
  have m: "0 \<le> tc_TTL tc" "tc_TTL tc < 2 ^ 58" "0 \<le> tc_HeartbeatInterval tc" "tc_HeartbeatInterval tc < 2 ^ 58"
    "0 \<le> tc_DisconnectGracePeriod tc" "tc_DisconnectGracePeriod tc < 2 ^ 58" "0 \<le> tc_InitialJitter tc" "tc_InitialJitter tc < 2 ^ 58"
    "0 \<le> tc_MaxRetryBackoff tc" "tc_MaxRetryBackoff tc < 2 ^ 58" "0 \<le> tc_PeriodicCheckInterval tc" "tc_PeriodicCheckInterval tc < 2 ^ 58"
    "0 \<le> tc_NATSPropagationBuffer tc" "tc_NATSPropagationBuffer tc < 2 ^ 58"
    using assms(1) by (simp_all add: moderate_def)
  show "fst (CalculateNetworkPartitionTimeout tc) = fst (CalculateTTLExpirationTimeout tc) + grace_period c"
    using m assms(2)
    by (auto simp: CalculateNetworkPartitionTimeout_def CalculateTTLExpirationTimeout_def grace_period_def describes_def i64_small Let_def mult.commute)
  show "fst (CalculateTTLExpirationTimeout tc) =
      TTL c + tc_PeriodicCheckInterval tc + tc_InitialJitter tc + tc_MaxRetryBackoff tc + tc_NATSPropagationBuffer tc"
    using m assms(2) by (simp add: CalculateTTLExpirationTimeout_def describes_def i64_small Let_def)
  show "fst (CalculateImmediateDeletionTimeout tc) =
      tc_PeriodicCheckInterval tc + tc_InitialJitter tc + tc_MaxRetryBackoff tc + 500 * Millisecond"
    using m by (simp add: CalculateImmediateDeletionTimeout_def i64_small Let_def)
  show "snd (CalculateNetworkPartitionTimeout tc) = fst (CalculateNetworkPartitionTimeout tc) + 7 * Second"
    using m by (auto simp: CalculateNetworkPartitionTimeout_def i64_small Let_def)
  show "snd (CalculateTTLExpirationTimeout tc) = fst (CalculateTTLExpirationTimeout tc) + 8 * Second"
    using m by (simp add: CalculateTTLExpirationTimeout_def i64_small Let_def)
  show "snd (CalculateImmediateDeletionTimeout tc) = fst (CalculateImmediateDeletionTimeout tc) + 8 * Second"
    using m by (simp add: CalculateImmediateDeletionTimeout_def i64_small Let_def)
qed

end
