(* ===== verification/Test_Support.thy ===== *)
theory Test_Support
  imports Election_State
begin

text \<open>
  \<open>leader/test_helpers.go\<close> and \<open>leader/embedded_nats_server.go\<close>: polling helpers, the life of an
  embedded server, and the creation and removal of buckets. The operating system, the NATS server and
  the NATS client are parameters, working on a state \<open>'s\<close> of their own from which the clock is read
  too; what is relied on of them is stated where it is used.
\<close>

subsection \<open>Polling\<close>

text \<open>
  \<open>cond\<close> is the polled condition, \<open>sleep d\<close> a pause. The result is the message of \<open>t.Fatalf\<close>, or none
  if the condition was met; \<open>None\<close> means that the loop does not end.
\<close>

partial_function (option) wait_loop :: "('s \<Rightarrow> int) \<Rightarrow> (duration \<Rightarrow> 's \<Rightarrow> 's) \<Rightarrow> ('s \<Rightarrow> bool \<times> 's) \<Rightarrow> string \<Rightarrow> int \<Rightarrow> 's
    \<Rightarrow> (string option \<times> 's) option" where
  "wait_loop clock sleep cond msg deadline s =
     (if clock s < deadline then
        (let (met, s') = cond s
         in if met then Some (None, s') else wait_loop clock sleep cond msg deadline (sleep (10 * Millisecond) s'))
      else Some (Some (''Timeout waiting for condition: '' @ msg), s))"

definition WaitForCondition :: "('s \<Rightarrow> int) \<Rightarrow> (duration \<Rightarrow> 's \<Rightarrow> 's) \<Rightarrow> ('s \<Rightarrow> bool \<times> 's) \<Rightarrow> duration \<Rightarrow> string \<Rightarrow> 's
    \<Rightarrow> (string option \<times> 's) option" where
  "WaitForCondition clock sleep cond timeout msg s = wait_loop clock sleep cond msg (clock s + timeout) s"

text \<open>\<open>election\<close> reads the polled election off the state.\<close>

definition WaitForLeader :: "('s \<Rightarrow> int) \<Rightarrow> (duration \<Rightarrow> 's \<Rightarrow> 's) \<Rightarrow> ('s \<Rightarrow> kvElection) \<Rightarrow> bool \<Rightarrow> duration \<Rightarrow> 's
    \<Rightarrow> (string option \<times> 's) option" where
  "WaitForLeader clock sleep election expectLeader timeout s =
     WaitForCondition clock sleep (\<lambda>s. (IsLeader (election s) = expectLeader, s)) timeout ''leader state'' s"

fun time_After :: "time \<Rightarrow> time \<Rightarrow> bool" where
  "time_After None _ = False"
| "time_After (Some t) None = True"
| "time_After (Some t) (Some u) = (u < t)"

definition WaitForHeartbeat :: "('s \<Rightarrow> int) \<Rightarrow> (duration \<Rightarrow> 's \<Rightarrow> 's) \<Rightarrow> ('s \<Rightarrow> kvElection) \<Rightarrow> time \<Rightarrow> duration \<Rightarrow> 's
    \<Rightarrow> (string option \<times> 's) option" where
  "WaitForHeartbeat clock sleep election initialHeartbeat timeout s =
     WaitForCondition clock sleep (\<lambda>s. (time_After (st_LastHeartbeat (Status_of (election s))) initialHeartbeat, s)) timeout ''heartbeat'' s"

text \<open>The state at the i-th poll, if all before were in vain.\<close>

definition poll_state :: "(duration \<Rightarrow> 's \<Rightarrow> 's) \<Rightarrow> ('s \<Rightarrow> bool \<times> 's) \<Rightarrow> nat \<Rightarrow> 's \<Rightarrow> 's" where
  "poll_state sleep cond i s = ((\<lambda>s. sleep (10 * Millisecond) (snd (cond s))) ^^ i) s"

lemma poll_state_Suc: "poll_state sleep cond (Suc i) s = poll_state sleep cond i (sleep (10 * Millisecond) (snd (cond s)))"
  by (simp add: poll_state_def funpow_Suc_right del: funpow.simps)

lemma poll_state_0 [simp]: "poll_state sleep cond 0 s = s"
  by (simp add: poll_state_def)

text \<open>The clock does not run backwards, and a pause lasts at least as long as asked for.\<close>

definition clock_runs :: "('s \<Rightarrow> int) \<Rightarrow> (duration \<Rightarrow> 's \<Rightarrow> 's) \<Rightarrow> ('s \<Rightarrow> bool \<times> 's) \<Rightarrow> bool" where
  "clock_runs clock sleep cond \<longleftrightarrow> (\<forall>s. clock s \<le> clock (snd (cond s))) \<and> (\<forall>d s. 0 \<le> d \<longrightarrow> clock s + d \<le> clock (sleep d s))"

definition polls :: "int \<Rightarrow> nat" where
  "polls x = nat ((x + (10 * Millisecond - 1)) div (10 * Millisecond))"

lemma polls_pos: "0 < x \<Longrightarrow> 0 < polls x"
  using pos_imp_zdiv_pos_iff [of "10 * Millisecond" "x + (10 * Millisecond - 1)"] by (simp add: polls_def)

lemma polls_step: "x' + 10 * Millisecond \<le> x \<Longrightarrow> 0 < x \<Longrightarrow> polls x' + 1 \<le> polls x"
proof -
  assume x: "x' + 10 * Millisecond \<le> x" "0 < x"
  have "(x' + (10 * Millisecond - 1)) div (10 * Millisecond) + 1 \<le> (x + (10 * Millisecond - 1)) div (10 * Millisecond)"
    using zdiv_mono1 [of "x' + (10 * Millisecond - 1) + 10 * Millisecond" "x + (10 * Millisecond - 1)" "10 * Millisecond"] x(1) by simp
  with polls_pos [OF x(2)] show ?thesis unfolding polls_def by linarith
qed

lemma wait_loop_result:
  assumes "clock_runs clock sleep cond"
  shows "\<exists>n \<le> polls (deadline - clock s).
    (\<forall>j<n. clock (poll_state sleep cond j s) < deadline) \<and>
    ((\<forall>j<n. \<not> fst (cond (poll_state sleep cond j s))) \<and> deadline \<le> clock (poll_state sleep cond n s) \<and>
      wait_loop clock sleep cond msg deadline s = Some (Some (''Timeout waiting for condition: '' @ msg), poll_state sleep cond n s) \<or>
     0 < n \<and> fst (cond (poll_state sleep cond (n - 1) s)) \<and>
      wait_loop clock sleep cond msg deadline s = Some (None, snd (cond (poll_state sleep cond (n - 1) s))))"
proof (induction "nat (deadline - clock s)" arbitrary: s rule: less_induct)
  case less
  show ?case
  proof (cases "clock s < deadline")
    case False
    then show ?thesis by (subst (1 2) wait_loop.simps) (auto intro!: exI [of _ 0])
  next
    case True
    obtain b s' where c: "cond s = (b, s')" by (cases "cond s")
    show ?thesis
    proof (cases b)
      case b: True
      have "0 < polls (deadline - clock s)" using True by (intro polls_pos) simp
      with True c b show ?thesis by (subst (1 2) wait_loop.simps) (auto intro!: exI [of _ 1])
    next
      case False
      let ?t = "sleep (10 * Millisecond) s'"
      have t: "clock s + 10 * Millisecond \<le> clock ?t"
      proof -
        have "clock s \<le> clock s'" using assms c unfolding clock_runs_def by (metis snd_conv)
        moreover have "clock s' + 10 * Millisecond \<le> clock ?t" using assms unfolding clock_runs_def by simp
        ultimately show ?thesis by linarith
      qed
      then have lt: "nat (deadline - clock ?t) < nat (deadline - clock s)" using True by simp
      have eq: "wait_loop clock sleep cond msg deadline s = wait_loop clock sleep cond msg deadline ?t"
        using True c False by (subst wait_loop.simps) simp
      have ps: "poll_state sleep cond (Suc j) s = poll_state sleep cond j ?t" for j using c by (simp add: poll_state_Suc)
      obtain n where n: "n \<le> polls (deadline - clock ?t)"
        "\<forall>j<n. clock (poll_state sleep cond j ?t) < deadline"
        "(\<forall>j<n. \<not> fst (cond (poll_state sleep cond j ?t))) \<and> deadline \<le> clock (poll_state sleep cond n ?t) \<and>
          wait_loop clock sleep cond msg deadline ?t = Some (Some (''Timeout waiting for condition: '' @ msg), poll_state sleep cond n ?t) \<or>
         0 < n \<and> fst (cond (poll_state sleep cond (n - 1) ?t)) \<and>
          wait_loop clock sleep cond msg deadline ?t = Some (None, snd (cond (poll_state sleep cond (n - 1) ?t)))"
        using less [OF lt] by blast
      have "Suc n \<le> polls (deadline - clock s)"
        using n(1) polls_step [of "deadline - clock ?t" "deadline - clock s"] t True by simp
      moreover have "\<forall>j<Suc n. clock (poll_state sleep cond j s) < deadline"
        using n(2) True ps by (auto simp: less_Suc_eq_0_disj)
      moreover have "poll_state sleep cond (Suc n - 1) s = poll_state sleep cond (n - 1) ?t" if "0 < n"
        using that ps [of "n - 1"] by simp
      ultimately show ?thesis
        using n(3) eq ps c False by (intro exI [of _ "Suc n"]) (auto simp: less_Suc_eq_0_disj)
    qed
  qed
qed

text \<open>
  C36: With a clock that runs \<open>WaitForCondition\<close> always ends, after at most one poll per started ten
  milliseconds of the timeout; it succeeds exactly when the condition holds at one of the polls made
  before the deadline, and otherwise fails the test, at the deadline or later.
\<close>

theorem WaitForCondition_polls:
  assumes "clock_runs clock sleep cond"
  shows "\<exists>r s'. WaitForCondition clock sleep cond timeout msg s = Some (r, s') \<and>
    (r = None \<longleftrightarrow> (\<exists>i<polls timeout. (\<forall>j\<le>i. clock (poll_state sleep cond j s) < clock s + timeout) \<and> fst (cond (poll_state sleep cond i s)))) \<and>
    (r \<noteq> None \<longrightarrow> r = Some (''Timeout waiting for condition: '' @ msg) \<and> clock s + timeout \<le> clock s')"
proof -
  let ?d = "clock s + timeout" and ?p = "\<lambda>j. poll_state sleep cond j s"
  obtain n where n: "n \<le> polls timeout" "\<forall>j<n. clock (?p j) < ?d"
    "(\<forall>j<n. \<not> fst (cond (?p j))) \<and> ?d \<le> clock (?p n) \<and>
      wait_loop clock sleep cond msg ?d s = Some (Some (''Timeout waiting for condition: '' @ msg), ?p n) \<or>
     0 < n \<and> fst (cond (?p (n - 1))) \<and> wait_loop clock sleep cond msg ?d s = Some (None, snd (cond (?p (n - 1))))"
    using wait_loop_result [OF assms, of "clock s + timeout" s msg] by auto
  from n(3) show ?thesis
  proof
    assume f: "(\<forall>j<n. \<not> fst (cond (?p j))) \<and> ?d \<le> clock (?p n) \<and>
      wait_loop clock sleep cond msg ?d s = Some (Some (''Timeout waiting for condition: '' @ msg), ?p n)"
    have "\<not> (\<exists>i<polls timeout. (\<forall>j\<le>i. clock (?p j) < ?d) \<and> fst (cond (?p i)))"
      using f by (metis not_less)
    with f show ?thesis by (simp add: WaitForCondition_def)
  next
    assume g: "0 < n \<and> fst (cond (?p (n - 1))) \<and> wait_loop clock sleep cond msg ?d s = Some (None, snd (cond (?p (n - 1))))"
    have "n - 1 < polls timeout \<and> (\<forall>j\<le>n - 1. clock (?p j) < ?d)" using g n(1,2) by auto
    with g show ?thesis by (auto simp: WaitForCondition_def)
  qed
qed

theorem WaitForCondition_polls_witness:
  "\<exists>s'. WaitForCondition id (\<lambda>d s. s + d) (\<lambda>s. (15 * Millisecond \<le> s, s)) Second ''x'' 0 = Some (None, s' :: int)"
proof -
  let ?sleep = "\<lambda>d s :: int. s + d" and ?cond = "\<lambda>s :: int. (15 * Millisecond \<le> s, s)"
  have r: "clock_runs id ?sleep ?cond" by (simp add: clock_runs_def)
  have p: "poll_state ?sleep ?cond j 0 = int j * (10 * Millisecond)" for j
    by (induction j) (simp_all add: poll_state_def algebra_simps)
  have "2 < polls Second" by (simp add: polls_def)
  moreover have "\<forall>j\<le>2. id (poll_state ?sleep ?cond j 0) < id 0 + Second" unfolding p by auto
  moreover have "fst (?cond (poll_state ?sleep ?cond 2 0))" unfolding p by simp
  ultimately have e: "\<exists>i<polls Second. (\<forall>j\<le>i. id (poll_state ?sleep ?cond j 0) < id 0 + Second) \<and> fst (?cond (poll_state ?sleep ?cond i 0))"
    by blast
  from WaitForCondition_polls [OF r, of Second "''x''" 0] show ?thesis
  proof (elim exE conjE)
    fix r s'
    assume w: "WaitForCondition id ?sleep ?cond Second ''x'' 0 = Some (r, s')"
      and "r = None \<longleftrightarrow> (\<exists>i<polls Second. (\<forall>j\<le>i. id (poll_state ?sleep ?cond j 0) < id 0 + Second) \<and> fst (?cond (poll_state ?sleep ?cond i 0)))"
    then have "r = None" using e by (simp only:)
    with w show ?thesis by (intro exI [of _ s']) (simp only:)
  qed
qed

subsection \<open>Buckets\<close>

record kv_config =
  kc_Bucket :: string
  kc_TTL :: duration

text \<open>The NATS client: a JetStream context and its buckets; \<open>'k\<close> is a bucket handle. All buckets are stored in files.\<close>

record ('k, 's) nats_conn =
  conn_JetStream :: "'s \<Rightarrow> (error + unit) \<times> 's"
  js_KeyValue :: "string \<Rightarrow> 's \<Rightarrow> (error + 'k) \<times> 's"
  js_CreateKeyValue :: "kv_config \<Rightarrow> 's \<Rightarrow> (error + 'k) \<times> 's"
  js_DeleteKeyValue :: "string \<Rightarrow> 's \<Rightarrow> error option \<times> 's"

definition CreateKVBucket :: "('k, 's) nats_conn option \<Rightarrow> string \<Rightarrow> duration \<Rightarrow> 's \<Rightarrow> error option \<times> 's" where
  "CreateKVBucket conn bucketName ttl s0 =
     (case conn of
        None \<Rightarrow> (Some (ErrorString ''connection is nil''), s0)
      | Some nc \<Rightarrow>
          (case conn_JetStream nc s0 of
             (Inl err, s1) \<Rightarrow> (Some (WrapError ''failed to get JetStream context'' err), s1)
           | (Inr _, s1) \<Rightarrow>
               (case js_KeyValue nc bucketName s1 of
                  (Inr _, s2) \<Rightarrow> (None, s2)
                | (Inl _, s2) \<Rightarrow>
                    (case js_CreateKeyValue nc \<lparr>kc_Bucket = bucketName, kc_TTL = ttl\<rparr> s2 of
                       (Inl err, s3) \<Rightarrow> (Some (WrapError (''failed to create KV bucket '' @ bucketName) err), s3)
                     | (Inr _, s3) \<Rightarrow> (None, s3)))))"

definition CleanupKVBucket :: "('k, 's) nats_conn option \<Rightarrow> string \<Rightarrow> 's \<Rightarrow> error option \<times> 's" where
  "CleanupKVBucket conn bucketName s0 =
     (case conn of
        None \<Rightarrow> (Some (ErrorString ''connection is nil''), s0)
      | Some nc \<Rightarrow>
          (case conn_JetStream nc s0 of
             (Inl err, s1) \<Rightarrow> (Some (WrapError ''failed to get JetStream context'' err), s1)
           | (Inr _, s1) \<Rightarrow>
               (case js_KeyValue nc bucketName s1 of
                  (Inl _, s2) \<Rightarrow> (None, s2)
                | (Inr _, s2) \<Rightarrow>
                    (case js_DeleteKeyValue nc bucketName s2 of
                       (Some err, s3) \<Rightarrow> (Some (WrapError (''failed to delete KV bucket '' @ bucketName) err), s3)
                     | (None, s3) \<Rightarrow> (None, s3)))))"

definition GetKVBucket :: "('k, 's) nats_conn option \<Rightarrow> string \<Rightarrow> 's \<Rightarrow> (error + 'k) \<times> 's" where
  "GetKVBucket conn bucketName s0 =
     (case conn of
        None \<Rightarrow> (Inl (ErrorString ''connection is nil''), s0)
      | Some nc \<Rightarrow>
          (case conn_JetStream nc s0 of
             (Inl err, s1) \<Rightarrow> (Inl (WrapError ''failed to get JetStream context'' err), s1)
           | (Inr _, s1) \<Rightarrow>
               (case js_KeyValue nc bucketName s1 of
                  (Inl err, s2) \<Rightarrow> (Inl (WrapError (''bucket '' @ bucketName @ '' does not exist'') err), s2)
                | (Inr kv, s2) \<Rightarrow> (Inr kv, s2))))"

definition EnsureKVBucket :: "('k, 's) nats_conn option \<Rightarrow> string \<Rightarrow> duration \<Rightarrow> 's \<Rightarrow> (error + 'k) \<times> 's" where
  "EnsureKVBucket conn bucketName ttl s0 =
     (case CreateKVBucket conn bucketName ttl s0 of
        (Some err, s1) \<Rightarrow> (Inl err, s1)
      | (None, s1) \<Rightarrow> GetKVBucket conn bucketName s1)"

text \<open>
  What is documented of the client. Looking a bucket up changes none; it succeeds only for a bucket that is
  there and fails with the error for a missing bucket only if it is missing (other errors, a timeout, say
  nothing about the bucket). Creating adds the bucket with its time to live, and succeeds only if it was
  missing or has that time to live; deleting removes it. \<open>bks\<close> reads the buckets off the state.
\<close>

definition nats_bucket_not_found :: error where
  "nats_bucket_not_found = ErrorString ''nats: bucket not found''"

definition client_ok :: "('k, 's) nats_conn \<Rightarrow> ('s \<Rightarrow> string \<rightharpoonup> duration) \<Rightarrow> bool" where
  "client_ok nc bks \<longleftrightarrow>
     (\<forall>s r s'. conn_JetStream nc s = (r, s') \<longrightarrow> bks s' = bks s) \<and>
     (\<forall>b s r s'. js_KeyValue nc b s = (r, s') \<longrightarrow> bks s' = bks s \<and> (\<forall>k. r = Inr k \<longrightarrow> bks s b \<noteq> None) \<and>
        (r = Inl nats_bucket_not_found \<longrightarrow> bks s b = None)) \<and>
     (\<forall>kc s k s'. js_CreateKeyValue nc kc s = (Inr k, s') \<longrightarrow>
        bks s (kc_Bucket kc) \<in> {None, Some (kc_TTL kc)} \<and> bks s' = (bks s)(kc_Bucket kc \<mapsto> kc_TTL kc)) \<and>
     (\<forall>b s s'. js_DeleteKeyValue nc b s = (None, s') \<longrightarrow> bks s' = (bks s)(b := None))"

lemma client_ok_frames:
  assumes "client_ok nc bks"
  shows "conn_JetStream nc s = (r, s') \<Longrightarrow> bks s' = bks s"
    and "js_KeyValue nc b s = (r', s') \<Longrightarrow> bks s' = bks s"
    and "js_KeyValue nc b s = (Inr k, s') \<Longrightarrow> bks s b \<noteq> None"
    and "js_KeyValue nc b s = (Inl nats_bucket_not_found, s') \<Longrightarrow> bks s b = None"
    and "js_CreateKeyValue nc kc s = (Inr k, s') \<Longrightarrow>
      bks s (kc_Bucket kc) \<in> {None, Some (kc_TTL kc)} \<and> bks s' = (bks s)(kc_Bucket kc \<mapsto> kc_TTL kc)"
    and "js_DeleteKeyValue nc b s = (None, s') \<Longrightarrow> bks s' = (bks s)(b := None)"
  using assms unfolding client_ok_def by blast+

text \<open>Success leaves the bucket there: with its own time to live if it was there before, with the given one if not.\<close>

definition ensured :: "string \<Rightarrow> duration \<Rightarrow> (string \<rightharpoonup> duration) \<Rightarrow> (string \<rightharpoonup> duration)" where
  "ensured b ttl m = m(b \<mapsto> (case m b of None \<Rightarrow> ttl | Some t \<Rightarrow> t))"

lemma ensured_simps [simp]: "ensured b ttl (ensured b ttl' m) = ensured b ttl' m" "ensured b ttl m b \<noteq> None" "(ensured b ttl m)(b := None) = m(b := None)"
  by (auto simp: ensured_def)

lemma ensured_present: "m b = Some t \<Longrightarrow> ensured b ttl m = m"
  by (auto simp: ensured_def)

lemma ensured_absent: "m b \<in> {None, Some ttl} \<Longrightarrow> m(b \<mapsto> ttl) = ensured b ttl m"
  by (auto simp: ensured_def)

lemma CreateKVBucket_effect:
  assumes "client_ok nc bks" "CreateKVBucket (Some nc) b ttl s = (None, s')"
  shows "bks s' = ensured b ttl (bks s)"
proof -
  obtain j s1 where 1: "conn_JetStream nc s = (j, s1)" by (cases "conn_JetStream nc s")
  obtain q s2 where 2: "js_KeyValue nc b s1 = (q, s2)" by (cases "js_KeyValue nc b s1")
  obtain c s3 where 3: "js_CreateKeyValue nc \<lparr>kc_Bucket = b, kc_TTL = ttl\<rparr> s2 = (c, s3)"
    by (cases "js_CreateKeyValue nc \<lparr>kc_Bucket = b, kc_TTL = ttl\<rparr> s2")
  have f: "bks s1 = bks s" "bks s2 = bks s" using client_ok_frames(1,2) [OF assms(1)] 1 2 by metis+
  show ?thesis
    using assms(2) 1 2 3 f client_ok_frames(3) [OF assms(1), of b s1] client_ok_frames(5) [OF assms(1), of "\<lparr>kc_Bucket = b, kc_TTL = ttl\<rparr>" s2]
    by (auto simp: CreateKVBucket_def ensured_absent ensured_present split: sum.splits)
qed

lemma GetKVBucket_effect:
  assumes "client_ok nc bks" "GetKVBucket (Some nc) b s = (r, s')"
  shows "bks s' = bks s"
  using assms(2) client_ok_frames(1,2) [OF assms(1)]
  by (auto simp: GetKVBucket_def split: prod.splits sum.splits)

lemma EnsureKVBucket_effect:
  assumes "client_ok nc bks" "EnsureKVBucket (Some nc) b ttl s = (Inr k, s')"
  shows "bks s' = ensured b ttl (bks s)"
  using assms(2) CreateKVBucket_effect [OF assms(1)] GetKVBucket_effect [OF assms(1)]
  by (auto simp: EnsureKVBucket_def split: prod.splits option.splits)

text \<open>What the lookup in a cleanup answers.\<close>

definition looked_up :: "('k, 's) nats_conn \<Rightarrow> string \<Rightarrow> 's \<Rightarrow> error + 'k" where
  "looked_up nc b s = fst (js_KeyValue nc b (snd (conn_JetStream nc s)))"

lemma CleanupKVBucket_effect:
  assumes "client_ok nc bks" "CleanupKVBucket (Some nc) b s = (None, s')" "bks s b \<noteq> None"
  shows "case looked_up nc b s of Inr _ \<Rightarrow> bks s' = (bks s)(b := None) | Inl err \<Rightarrow> err \<noteq> nats_bucket_not_found \<and> bks s' = bks s"
proof -
  obtain j s1 where 1: "conn_JetStream nc s = (j, s1)" by (cases "conn_JetStream nc s")
  obtain q s2 where 2: "js_KeyValue nc b s1 = (q, s2)" by (cases "js_KeyValue nc b s1")
  have f: "bks s1 = bks s" "bks s2 = bks s" using client_ok_frames(1,2) [OF assms(1)] 1 2 by metis+
  have "q \<noteq> Inl nats_bucket_not_found" using client_ok_frames(4) [OF assms(1), of b s1 s2] 2 f assms(3) by auto
  then show ?thesis
    using assms(2) 1 2 f client_ok_frames(6) [OF assms(1), of b s2]
    by (auto simp: CleanupKVBucket_def looked_up_def split: sum.splits prod.splits option.splits)
qed

text \<open>
  C37: A successful \<open>EnsureKVBucket\<close> leaves the bucket in place, with the time to live it already had
  if it was there before, and changes no other; doing it again, with whatever time to live, changes nothing. A
  \<open>CleanupKVBucket\<close> that then reports success removes exactly this bucket, if it could look it up; if the
  lookup failed, with an error that does not say the bucket is missing, it reports success all the same
  and the bucket stays.
\<close>

theorem EnsureKVBucket_cleanup:
  assumes "client_ok nc bks"
    and "EnsureKVBucket (Some nc) b ttl s = (Inr k, s1)" "EnsureKVBucket (Some nc) b ttl' s1 = (Inr k', s2)"
    and "CleanupKVBucket (Some nc) b s2 = (None, s3)"
  shows "bks s1 = (bks s)(b \<mapsto> (case bks s b of None \<Rightarrow> ttl | Some t \<Rightarrow> t)) \<and> bks s2 = bks s1 \<and>
    (case looked_up nc b s2 of
       Inr _ \<Rightarrow> bks s3 = (bks s)(b := None)
     | Inl err \<Rightarrow> err \<noteq> nats_bucket_not_found \<and> bks s3 = bks s1)"
  using EnsureKVBucket_effect [OF assms(1) assms(2)] EnsureKVBucket_effect [OF assms(1) assms(3)]
    CleanupKVBucket_effect [OF assms(1) assms(4)]
  by (simp add: ensured_def split: sum.splits)

definition test_conn :: "(unit, string \<rightharpoonup> duration) nats_conn" where
  "test_conn = \<lparr>conn_JetStream = (\<lambda>s. (Inr (), s)),
     js_KeyValue = (\<lambda>b s. (if s b = None then Inl nats_bucket_not_found else Inr (), s)),
     js_CreateKeyValue = (\<lambda>kc s. if s (kc_Bucket kc) \<in> {None, Some (kc_TTL kc)} then (Inr (), s(kc_Bucket kc \<mapsto> kc_TTL kc)) else (Inl (ErrorString ''nats: stream name already in use''), s)),
     js_DeleteKeyValue = (\<lambda>b s. (None, s(b := None)))\<rparr>"

theorem EnsureKVBucket_cleanup_witness:
  "\<exists>s1 s2 s3. EnsureKVBucket (Some test_conn) ''leaders'' Second (\<lambda>_. None) = (Inr (), s1) \<and>
     EnsureKVBucket (Some test_conn) ''leaders'' (2 * Second) s1 = (Inr (), s2) \<and>
     CleanupKVBucket (Some test_conn) ''leaders'' s2 = (None, s3) \<and>
     s2 = [''leaders'' \<mapsto> Second] \<and> s3 = (\<lambda>_. None)"
proof -
  let ?m = "[''leaders'' \<mapsto> Second]"
  have c: "client_ok test_conn (\<lambda>s. s)" by (auto simp: client_ok_def test_conn_def split: if_splits)
  have l: "looked_up test_conn ''leaders'' ?m = Inr ()" by (simp add: looked_up_def test_conn_def)
  have e1: "EnsureKVBucket (Some test_conn) ''leaders'' Second (\<lambda>_. None) = (Inr (), ?m)"
    by (simp add: EnsureKVBucket_def CreateKVBucket_def GetKVBucket_def test_conn_def)
  have e2: "EnsureKVBucket (Some test_conn) ''leaders'' (2 * Second) ?m = (Inr (), ?m)"
    by (simp add: EnsureKVBucket_def CreateKVBucket_def GetKVBucket_def test_conn_def)
  have e3: "CleanupKVBucket (Some test_conn) ''leaders'' ?m = (None, ?m(''leaders'' := None))"
    by (simp add: CleanupKVBucket_def test_conn_def)
  from EnsureKVBucket_cleanup [OF c e1 e2 e3] e1 e2 e3 l show ?thesis by auto
qed

subsection \<open>The embedded server\<close>

record server_options =
  so_ServerName :: string
  so_JetStream :: bool
  so_StoreDir :: string
  so_Port :: int
  so_Host :: string
  so_NoLog :: bool
  so_NoSigs :: bool

text \<open>
  Of the operating system: temporary directories. Of the server: its life cycle; \<open>'v\<close> is a server.
  \<open>go_Start\<close> starts \<open>Start\<close> in a goroutine of its own, whose further progress the later calls see.
\<close>

record ('v, 's) server_lib =
  os_MkdirTemp :: "'s \<Rightarrow> (error + string) \<times> 's"
  os_RemoveAll :: "string \<Rightarrow> 's \<Rightarrow> error option \<times> 's"
  server_NewServer :: "server_options \<Rightarrow> 's \<Rightarrow> (error + 'v) \<times> 's"
  go_Start :: "'v \<Rightarrow> 's \<Rightarrow> 's"
  srv_ReadyForConnections :: "'v \<Rightarrow> duration \<Rightarrow> 's \<Rightarrow> bool \<times> 's"
  srv_Running :: "'v \<Rightarrow> 's \<Rightarrow> bool \<times> 's"
  srv_Shutdown :: "'v \<Rightarrow> 's \<Rightarrow> 's"
  srv_StoreDir :: "'v \<Rightarrow> 's \<Rightarrow> string"

definition server_opts :: "string \<Rightarrow> server_options" where
  "server_opts storeDir =
     \<lparr>so_ServerName = ''nats-test'', so_JetStream = True, so_StoreDir = storeDir, so_Port = - 1, so_Host = ''127.0.0.1'',
      so_NoLog = True, so_NoSigs = True\<rparr>"

text \<open>A started server comes with the goroutine that waits for the context: \<open>server_monitor v storeDir\<close>.\<close>

definition StartEmbeddedNATSServer :: "('v, 's) server_lib \<Rightarrow> 's \<Rightarrow> (error + 'v) \<times> ('v \<times> string) option \<times> 's" where
  "StartEmbeddedNATSServer lib s0 =
     (case os_MkdirTemp lib s0 of
        (Inl err, s1) \<Rightarrow> (Inl (WrapError ''failed to create temp directory'' err), None, s1)
      | (Inr storeDir, s1) \<Rightarrow>
          (case server_NewServer lib (server_opts storeDir) s1 of
             (Inl err, s2) \<Rightarrow> (Inl (WrapError ''failed to create NATS server'' err), None, snd (os_RemoveAll lib storeDir s2))
           | (Inr v, s2) \<Rightarrow>
               (case srv_ReadyForConnections lib v (5 * Second) (go_Start lib v s2) of
                  (ready, s3) \<Rightarrow>
                    if \<not> ready then (Inl (ErrorString ''server not ready within timeout''), None, snd (os_RemoveAll lib storeDir s3))
                    else (Inr v, Some (v, storeDir), s3))))"

text \<open>The goroutine once the context is done.\<close>

definition server_monitor :: "('v, 's) server_lib \<Rightarrow> 'v \<times> string \<Rightarrow> 's \<Rightarrow> 's" where
  "server_monitor lib m s0 =
     (case m of (v, storeDir) \<Rightarrow>
       (case srv_Running lib v s0 of
          (running, s1) \<Rightarrow> snd (os_RemoveAll lib storeDir (if running then srv_Shutdown lib v s1 else s1))))"

partial_function (option) stop_wait :: "('v, 's) server_lib \<Rightarrow> ('s \<Rightarrow> int) \<Rightarrow> (duration \<Rightarrow> 's \<Rightarrow> 's) \<Rightarrow> 'v \<Rightarrow> int \<Rightarrow> 's \<Rightarrow> 's option" where
  "stop_wait lib clock sleep v deadline s =
     (let (running, s') = srv_Running lib v s
      in if running \<and> clock s' < deadline then stop_wait lib clock sleep v deadline (sleep (50 * Millisecond) s') else Some s')"

definition StopEmbeddedNATSServer :: "('v, 's) server_lib \<Rightarrow> ('s \<Rightarrow> int) \<Rightarrow> (duration \<Rightarrow> 's \<Rightarrow> 's) \<Rightarrow> 'v option \<Rightarrow> 's
    \<Rightarrow> (error option \<times> 's) option" where
  "StopEmbeddedNATSServer lib clock sleep sv s0 =
     (case sv of
        None \<Rightarrow> Some (None, s0)
      | Some v \<Rightarrow>
          (let storeDir = srv_StoreDir lib v s0; s1 = srv_Shutdown lib v s0
           in map_option
             (\<lambda>s2. if storeDir \<noteq> [] then
                (case os_RemoveAll lib storeDir s2 of
                   (Some err, s3) \<Rightarrow> (Some (WrapError (''failed to cleanup store directory '' @ storeDir) err), s3)
                 | (None, s3) \<Rightarrow> (None, s3))
              else (None, s2))
             (stop_wait lib clock sleep v (clock s1 + 5 * Second) s1)))"

text \<open>Paths: the directory itself and everything below it.\<close>

definition at_or_below :: "string \<Rightarrow> string \<Rightarrow> bool" where
  "at_or_below d x \<longleftrightarrow> x = d \<or> prefix (d @ ''/'') x"

definition outside :: "string \<Rightarrow> string set \<Rightarrow> string set" where
  "outside d D = {x \<in> D. \<not> at_or_below d x}"

lemma at_or_below_antisym: "at_or_below d x \<Longrightarrow> at_or_below x d \<Longrightarrow> x = d"
  by (auto simp: at_or_below_def dest!: prefix_length_le)

lemma at_or_below_trans: "at_or_below d x \<Longrightarrow> at_or_below x y \<Longrightarrow> at_or_below d y"
  by (auto simp: at_or_below_def prefix_def)

lemma outside_outside: "at_or_below d x \<Longrightarrow> outside d (outside x D) = outside d D"
  using at_or_below_trans [of d x] by (auto simp: outside_def)

text \<open>
  What is documented of the file system. A temporary directory is a new one, with a name, and so far nothing
  is below it. \<open>RemoveAll\<close> that reports no error has removed the directory and everything below it; one that
  fails has removed some of that. \<open>dirs\<close> reads the directories off the state.
\<close>

definition files_ok :: "('v, 's) server_lib \<Rightarrow> ('s \<Rightarrow> string set) \<Rightarrow> bool" where
  "files_ok lib dirs \<longleftrightarrow>
     (\<forall>s err s'. os_MkdirTemp lib s = (Inl err, s') \<longrightarrow> dirs s' = dirs s) \<and>
     (\<forall>s d s'. os_MkdirTemp lib s = (Inr d, s') \<longrightarrow> d \<noteq> [] \<and> outside d (dirs s) = dirs s \<and> dirs s' = insert d (dirs s)) \<and>
     (\<forall>d s s'. os_RemoveAll lib d s = (None, s') \<longrightarrow> dirs s' = outside d (dirs s)) \<and>
     (\<forall>d s err s'. os_RemoveAll lib d s = (Some err, s') \<longrightarrow> outside d (dirs s) \<subseteq> dirs s' \<and> dirs s' \<subseteq> dirs s)"

text \<open>
  What is documented of a server: with the store directory \<open>d\<close> it works on the directories below \<open>d\<close> only,
  and \<open>StoreDir\<close> is where it keeps its streams: \<open>d\<close> or a directory below it, or none while JetStream is off.
\<close>

definition local :: "string \<Rightarrow> string set \<Rightarrow> string set \<Rightarrow> bool" where
  "local d D D' \<longleftrightarrow> (d \<in> D \<longrightarrow> d \<in> D') \<and> outside d D' = outside d D"

definition server_at :: "('v, 's) server_lib \<Rightarrow> ('s \<Rightarrow> string set) \<Rightarrow> string \<Rightarrow> 'v \<Rightarrow> bool" where
  "server_at lib dirs d v \<longleftrightarrow>
     (\<forall>s. local d (dirs s) (dirs (go_Start lib v s)) \<and> local d (dirs s) (dirs (srv_Shutdown lib v s)) \<and>
        local d (dirs s) (dirs (snd (srv_Running lib v s))) \<and>
        (\<forall>t. local d (dirs s) (dirs (snd (srv_ReadyForConnections lib v t s)))) \<and>
        (srv_StoreDir lib v s = [] \<or> at_or_below d (srv_StoreDir lib v s)))"

definition server_ok :: "('v, 's) server_lib \<Rightarrow> ('s \<Rightarrow> string set) \<Rightarrow> bool" where
  "server_ok lib dirs \<longleftrightarrow>
     (\<forall>opts s r s'. server_NewServer lib opts s = (r, s') \<longrightarrow> local (so_StoreDir opts) (dirs s) (dirs s') \<and>
        (\<forall>v. r = Inr v \<longrightarrow> server_at lib dirs (so_StoreDir opts) v))"

text \<open>The clock runs, and while the caller sleeps only the server works on the directories.\<close>

definition server_clock :: "('v, 's) server_lib \<Rightarrow> ('s \<Rightarrow> int) \<Rightarrow> (duration \<Rightarrow> 's \<Rightarrow> 's) \<Rightarrow> ('s \<Rightarrow> string set) \<Rightarrow> bool" where
  "server_clock lib clock sleep dirs \<longleftrightarrow>
     (\<forall>v s. clock s \<le> clock (snd (srv_Running lib v s))) \<and>
     (\<forall>t s. 0 \<le> t \<longrightarrow> clock s + t \<le> clock (sleep t s)) \<and>
     (\<forall>t s d v. server_at lib dirs d v \<longrightarrow> local d (dirs s) (dirs (sleep t s)))"

lemma local_refl [simp]: "local d D D"
  by (simp add: local_def)

lemma local_trans: "local d A B \<Longrightarrow> local d B C \<Longrightarrow> local d A C"
  by (auto simp: local_def)

lemma files_ok_rules:
  assumes "files_ok lib dirs"
  shows "os_MkdirTemp lib s = (Inl err, s') \<Longrightarrow> dirs s' = dirs s"
    and "os_MkdirTemp lib s = (Inr d, s') \<Longrightarrow> d \<noteq> [] \<and> outside d (dirs s) = dirs s \<and> dirs s' = insert d (dirs s)"
    and "os_RemoveAll lib d s = (None, s') \<Longrightarrow> dirs s' = outside d (dirs s)"
    and "os_RemoveAll lib d s = (r, s') \<Longrightarrow> outside d (dirs s) \<subseteq> dirs s' \<and> dirs s' \<subseteq> dirs s"
proof -
  note f = assms [unfolded files_ok_def]
  show "os_MkdirTemp lib s = (Inl err, s') \<Longrightarrow> dirs s' = dirs s" using f by blast
  show "os_MkdirTemp lib s = (Inr d, s') \<Longrightarrow> d \<noteq> [] \<and> outside d (dirs s) = dirs s \<and> dirs s' = insert d (dirs s)" using f by blast
  show n: "os_RemoveAll lib d s = (None, s') \<Longrightarrow> dirs s' = outside d (dirs s)" using f by blast
  show "os_RemoveAll lib d s = (r, s') \<Longrightarrow> outside d (dirs s) \<subseteq> dirs s' \<and> dirs s' \<subseteq> dirs s"
    using n f by (cases r) (auto simp: outside_def)
qed

lemma server_at_rules:
  assumes "server_at lib dirs d v"
  shows "local d (dirs s) (dirs (go_Start lib v s))" "local d (dirs s) (dirs (srv_Shutdown lib v s))"
    "local d (dirs s) (dirs (snd (srv_Running lib v s)))" "local d (dirs s) (dirs (snd (srv_ReadyForConnections lib v t s)))"
    "srv_StoreDir lib v s = [] \<or> at_or_below d (srv_StoreDir lib v s)"
  using assms unfolding server_at_def by blast+

lemma stop_wait_result:
  assumes "server_clock lib clock sleep dirs" "server_at lib dirs d v"
  shows "\<exists>t. stop_wait lib clock sleep v deadline s = Some (snd (srv_Running lib v t)) \<and>
    (\<not> fst (srv_Running lib v t) \<or> deadline \<le> clock (snd (srv_Running lib v t))) \<and> local d (dirs s) (dirs t)"
proof (induction "nat (deadline - clock s)" arbitrary: s rule: less_induct)
  case less
  obtain b s' where r: "srv_Running lib v s = (b, s')" by (cases "srv_Running lib v s")
  show ?case
  proof (cases "b \<and> clock s' < deadline")
    case False
    then show ?thesis using r by (intro exI [of _ s]) (subst stop_wait.simps, auto)
  next
    case True
    let ?t = "sleep (50 * Millisecond) s'"
    have c: "clock s \<le> clock (snd (srv_Running lib v s))" using assms(1) unfolding server_clock_def by blast
    have d: "clock s' + 50 * Millisecond \<le> clock ?t" "local d (dirs s') (dirs ?t)"
    proof -
      have c2: "\<forall>t s. 0 \<le> t \<longrightarrow> clock s + t \<le> clock (sleep t s)" and l2: "\<forall>t s d v. server_at lib dirs d v \<longrightarrow> local d (dirs s) (dirs (sleep t s))"
        using assms(1) unfolding server_clock_def by - (elim conjE, assumption)+
      show "clock s' + 50 * Millisecond \<le> clock ?t" using c2 by simp
      show "local d (dirs s') (dirs ?t)" using l2 assms(2) by blast
    qed
    have "local d (dirs s) (dirs s')" using server_at_rules(3) [OF assms(2), of s] r by simp
    then have dt: "local d (dirs s) (dirs ?t)" using d(2) by (rule local_trans)
    have "nat (deadline - clock ?t) < nat (deadline - clock s)" using True c d(1) r by simp
    from less [OF this] obtain t where t: "stop_wait lib clock sleep v deadline ?t = Some (snd (srv_Running lib v t))"
      "\<not> fst (srv_Running lib v t) \<or> deadline \<le> clock (snd (srv_Running lib v t))" "local d (dirs ?t) (dirs t)" by blast
    have "stop_wait lib clock sleep v deadline s = stop_wait lib clock sleep v deadline ?t"
      using True r by (subst stop_wait.simps) simp
    with t local_trans [OF dt t(3)] show ?thesis by (intro exI [of _ t]) simp
  qed
qed

text \<open>The directories of \<open>D\<close> and, at or below \<open>d\<close>, those of the server.\<close>

definition with_server :: "string \<Rightarrow> string set \<Rightarrow> string set \<Rightarrow> bool" where
  "with_server d D X \<longleftrightarrow> d \<in> X \<and> outside d X = D"

lemma with_server_local: "with_server d D X \<Longrightarrow> local d X Y \<Longrightarrow> with_server d D Y"
  by (simp add: with_server_def local_def)

text \<open>Removing the directory \<open>d\<close>, whatever \<open>RemoveAll\<close> reports.\<close>

lemma remove_all:
  assumes "files_ok lib dirs" "with_server d D (dirs s)" "os_RemoveAll lib d s = (r, s')"
  shows "outside d (dirs s') = D" "r = None \<Longrightarrow> dirs s' = D"
  using files_ok_rules(3,4) [OF assms(1)] assms(2,3) by (fastforce simp: with_server_def outside_def)+

lemma StartEmbeddedNATSServer_dirs:
  assumes "files_ok lib dirs" "server_ok lib dirs" "StartEmbeddedNATSServer lib s = (r, m, s')"
  shows "case r of
      Inl _ \<Rightarrow> m = None \<and> (dirs s' = dirs s \<or>
        (\<exists>d t err. os_RemoveAll lib d t = (Some err, s') \<and> outside d (dirs s') = dirs s))
    | Inr v \<Rightarrow> \<exists>d. m = Some (v, d) \<and> d \<noteq> [] \<and> with_server d (dirs s) (dirs s') \<and> server_at lib dirs d v"
proof -
  note f = files_ok_rules [OF assms(1)]
  have gone: "dirs z = dirs s \<or> (\<exists>d t err. os_RemoveAll lib d t = (Some err, z) \<and> outside d (dirs z) = dirs s)"
    if "with_server d (dirs s) (dirs x)" "z = snd (os_RemoveAll lib d x)" for d x z
    using remove_all [OF assms(1) that(1)] that(2) by (cases "os_RemoveAll lib d x"; cases "fst (os_RemoveAll lib d x)") fastforce+
  obtain a s1 where 1: "os_MkdirTemp lib s = (a, s1)" by (cases "os_MkdirTemp lib s")
  show ?thesis
  proof (cases a)
    case (Inl err)
    then show ?thesis using assms(3) 1 f(1) [of s err s1] by (auto simp: StartEmbeddedNATSServer_def)
  next
    case a: (Inr d)
    have d: "d \<noteq> []" "with_server d (dirs s) (dirs s1)"
      using f(2) [of s d s1] 1 a by (auto simp: with_server_def outside_def at_or_below_def)
    obtain c s2 where 2: "server_NewServer lib (server_opts d) s1 = (c, s2)" by (cases "server_NewServer lib (server_opts d) s1")
    have n: "local d (dirs s1) (dirs s2)" "c = Inr v \<Longrightarrow> server_at lib dirs d v" for v
      using assms(2) [unfolded server_ok_def, rule_format, OF 2] by (auto simp: server_opts_def)
    have d2: "with_server d (dirs s) (dirs s2)" using with_server_local [OF d(2) n(1)] .
    show ?thesis
    proof (cases c)
      case (Inl err)
      then obtain e where e: "r = Inl e" "m = None" "s' = snd (os_RemoveAll lib d s2)"
        using assms(3) 1 2 a by (auto simp: StartEmbeddedNATSServer_def)
      show ?thesis unfolding e(1) sum.case(1) using gone [OF d2 e(3)] e(2) by (intro conjI)
    next
      case c: (Inr v)
      note at = n(2) [OF c]
      obtain b s3 where 3: "srv_ReadyForConnections lib v (5 * Second) (go_Start lib v s2) = (b, s3)"
        by (cases "srv_ReadyForConnections lib v (5 * Second) (go_Start lib v s2)")
      have "local d (dirs (go_Start lib v s2)) (dirs s3)" using server_at_rules(4) [OF at, of "go_Start lib v s2" "5 * Second"] 3 by simp
      then have d3: "with_server d (dirs s) (dirs s3)" using with_server_local [OF with_server_local [OF d2 server_at_rules(1) [OF at]]] by blast
      show ?thesis
      proof (cases b)
        case True
        then show ?thesis using assms(3) 1 2 3 a c d(1) d3 at by (auto simp: StartEmbeddedNATSServer_def)
      next
        case False
        then obtain e where e: "r = Inl e" "m = None" "s' = snd (os_RemoveAll lib d s3)"
          using assms(3) 1 2 3 a c by (auto simp: StartEmbeddedNATSServer_def)
        show ?thesis unfolding e(1) sum.case(1) using gone [OF d3 e(3)] e(2) by (intro conjI)
      qed
    qed
  qed
qed

lemma server_monitor_removes:
  assumes "files_ok lib dirs" "server_at lib dirs d v" "with_server d D (dirs u)"
  shows "\<exists>t r. os_RemoveAll lib d t = (r, server_monitor lib (v, d) u) \<and> outside d (dirs (server_monitor lib (v, d) u)) = D \<and>
    (r = None \<longrightarrow> dirs (server_monitor lib (v, d) u) = D)"
proof -
  obtain b u' where r: "srv_Running lib v u = (b, u')" by (cases "srv_Running lib v u")
  let ?t = "if b then srv_Shutdown lib v u' else u'"
  have "local d (dirs u) (dirs u')" using server_at_rules(3) [OF assms(2), of u] r by simp
  then have t: "with_server d D (dirs ?t)"
    using with_server_local [OF with_server_local [OF assms(3)]] server_at_rules(2) [OF assms(2), of u'] by (cases b) auto
  obtain q z where q: "os_RemoveAll lib d ?t = (q, z)" by (cases "os_RemoveAll lib d ?t")
  then have "server_monitor lib (v, d) u = z" using r by (auto simp: server_monitor_def)
  with q remove_all [OF assms(1) t q] show ?thesis by blast
qed

text \<open>
  What \<open>StopEmbeddedNATSServer\<close> leaves: with the store directory \<open>sd\<close> that the server names, its
  directories are gone from \<open>sd\<close> on; the directory \<open>d\<close> it was given stays when \<open>sd\<close> is another.
\<close>

lemma StopEmbeddedNATSServer_result:
  assumes "files_ok lib dirs" "server_at lib dirs d v" "server_clock lib clock sleep dirs" "with_server d D (dirs u)"
  shows "\<exists>err t u'. StopEmbeddedNATSServer lib clock sleep (Some v) u = Some (err, u') \<and>
    (\<not> fst (srv_Running lib v t) \<or> clock (srv_Shutdown lib v u) + 5 * Second \<le> clock (snd (srv_Running lib v t))) \<and>
    outside d (dirs u') = D \<and>
    (err \<noteq> None \<longleftrightarrow> srv_StoreDir lib v u \<noteq> [] \<and> fst (os_RemoveAll lib (srv_StoreDir lib v u) (snd (srv_Running lib v t))) \<noteq> None) \<and>
    (if srv_StoreDir lib v u = d \<and> d \<noteq> [] then err = None \<longrightarrow> dirs u' = D else d \<in> dirs u')"
proof -
  let ?e = "clock (srv_Shutdown lib v u) + 5 * Second" and ?sd = "srv_StoreDir lib v u"
  obtain t where t: "stop_wait lib clock sleep v ?e (srv_Shutdown lib v u) = Some (snd (srv_Running lib v t))"
    "\<not> fst (srv_Running lib v t) \<or> ?e \<le> clock (snd (srv_Running lib v t))" "local d (dirs (srv_Shutdown lib v u)) (dirs t)"
    using stop_wait_result [OF assms(3,2), of ?e "srv_Shutdown lib v u"] by (elim exE conjE)
  let ?w = "snd (srv_Running lib v t)"
  have w: "with_server d D (dirs ?w)"
    using assms(4) server_at_rules(2) [OF assms(2), of u] t(3) server_at_rules(3) [OF assms(2), of t]
    by (blast intro: with_server_local)
  show ?thesis
  proof (cases "?sd = []")
    case True
    then have "StopEmbeddedNATSServer lib clock sleep (Some v) u = Some (None, ?w)"
      using t(1) by (simp add: StopEmbeddedNATSServer_def Let_def)
    then show ?thesis using True t(2) w by (intro exI [of _ None] exI [of _ t] exI [of _ ?w]) (auto simp: with_server_def)
  next
    case False
    then have b: "at_or_below d ?sd" using server_at_rules(5) [OF assms(2), of u] by simp
    obtain q z where q: "os_RemoveAll lib ?sd ?w = (q, z)" by (cases "os_RemoveAll lib ?sd ?w")
    note rm = files_ok_rules(4) [OF assms(1) q]
    have o: "outside d (dirs z) = D"
      using rm w outside_outside [OF b, of "dirs ?w"] by (auto simp: with_server_def outside_def)
    have other: "d \<in> dirs z" if "?sd \<noteq> d"
      using rm w at_or_below_antisym [OF b] that by (auto simp: with_server_def outside_def)
    have same: "dirs z = D" if "?sd = d" "q = None"
      using files_ok_rules(3) [OF assms(1)] q that w by (auto simp: with_server_def)
    obtain err where e: "StopEmbeddedNATSServer lib clock sleep (Some v) u = Some (err, z)" "err = None \<longleftrightarrow> q = None"
      using t(1) q False by (cases q) (auto simp: StopEmbeddedNATSServer_def Let_def)
    have "err \<noteq> None \<longleftrightarrow> ?sd \<noteq> [] \<and> fst (os_RemoveAll lib ?sd ?w) \<noteq> None" using e(2) q False by simp
    moreover have "if ?sd = d \<and> d \<noteq> [] then err = None \<longrightarrow> dirs z = D else d \<in> dirs z"
      using other same e(2) False by auto
    ultimately show ?thesis using e(1) t(2) o by blast
  qed
qed


text \<open>
  A server that makes \<open>jetstream\<close> below its directory when it is created and stops 20 milliseconds after its
  shutdown; the state is the clock, the stop time and the directories.
\<close>

definition test_server :: "(string, int \<times> int option \<times> string set) server_lib" where
  "test_server = \<lparr>
     os_MkdirTemp = (\<lambda>(t, e, D). if outside ''/tmp/nats-js-1'' D = D then (Inr ''/tmp/nats-js-1'', t, e, insert ''/tmp/nats-js-1'' D) else (Inl (ErrorString ''exists''), t, e, D)),
     os_RemoveAll = (\<lambda>d (t, e, D). (None, t, e, outside d D)),
     server_NewServer = (\<lambda>opts (t, e, D). (Inr (so_StoreDir opts), t, e, insert (so_StoreDir opts @ ''/jetstream'') D)),
     go_Start = (\<lambda>v (t, e, D). (t, None, D)),
     srv_ReadyForConnections = (\<lambda>v d s. (True, s)),
     srv_Running = (\<lambda>v (t, e, D). (case e of None \<Rightarrow> True | Some x \<Rightarrow> t < x, t, e, D)),
     srv_Shutdown = (\<lambda>v (t, e, D). (t, Some (t + 20 * Millisecond), D)),
     srv_StoreDir = (\<lambda>v s. v @ ''/jetstream'')\<rparr>"


end
