(* ===== verification/Control_Manager.thy ===== *)
theory Control_Manager
  imports Fencing
begin

text \<open>
  \<open>ControlManager\<close> of \<open>examples/control_manager/main.go\<close>: the tasks an instance runs while it leads,
  as a client of the election. Its goroutines interleave: a step is one round of a task's \<open>select\<close>, the promotion
  callback, or one half of \<open>StopLeaderTasks\<close>, which first cancels and then waits. The mutex of the manager only guards
  the assignments of such a half, so it leaves no trace. Printing is left out.
\<close>

subsection \<open>State\<close>

text \<open>
  A task waits in its \<open>select\<close>, or it is inside \<open>ValidateTokenOrDemote\<close>, whose demotion callback waits
  in \<open>StopLeaderTasks\<close>, or it has returned. A task context is cancelled by its own cancel function or with the
  context of the election it was made from.
\<close>

datatype task_state = Selecting | Stopping | Finished

record task =
  task_ctx :: nat
  task_at :: task_state

record task_context =
  tc_parent :: ctx_id
  tc_cancelled :: bool

text \<open>\<open>cm_waiters\<close> counts the other goroutines that wait in \<open>StopLeaderTasks\<close>.\<close>

record ControlManager =
  cm_ctx :: "nat option"
  cm_cancel :: "nat option"
  cm_wg :: nat
  cm_contexts :: "task_context list"
  cm_tasks :: "task list"
  cm_waiters :: nat

definition NewControlManager :: ControlManager where
  "NewControlManager =
     \<lparr>cm_ctx = None, cm_cancel = None, cm_wg = 0, cm_contexts = [], cm_tasks = [], cm_waiters = 0\<rparr>"

subsection \<open>Operations\<close>

text \<open>The token is only printed.\<close>

definition StartLeaderTasks :: "nat \<Rightarrow> string \<Rightarrow> ControlManager \<Rightarrow> ControlManager" where
  "StartLeaderTasks c tok cm =
     cm\<lparr>cm_wg := cm_wg cm + 1, cm_tasks := cm_tasks cm @ [\<lparr>task_ctx = c, task_at = Selecting\<rparr>]\<rparr>"

definition promote_callback :: "ctx_id \<Rightarrow> string \<Rightarrow> ControlManager \<Rightarrow> ControlManager" where
  "promote_callback parent tok cm =
     (let taskCtx = length (cm_contexts cm);
          cm = cm\<lparr>cm_contexts := cm_contexts cm @ [\<lparr>tc_parent = parent, tc_cancelled = False\<rparr>]\<rparr>;
          cm = cm\<lparr>cm_ctx := Some taskCtx, cm_cancel := Some taskCtx\<rparr>
      in StartLeaderTasks taskCtx tok cm)"

text \<open>\<open>StopLeaderTasks\<close> up to its \<open>wg.Wait()\<close>, which returns when the counter is zero.\<close>

definition StopLeaderTasks_cancel :: "ControlManager \<Rightarrow> ControlManager" where
  "StopLeaderTasks_cancel cm =
     (case cm_cancel cm of
        None \<Rightarrow> cm
      | Some i \<Rightarrow>
          cm\<lparr>cm_contexts := (cm_contexts cm)[i := (cm_contexts cm ! i)\<lparr>tc_cancelled := True\<rparr>],
             cm_cancel := None, cm_ctx := None\<rparr>)"

definition StopLeaderTasks_returns :: "ControlManager \<Rightarrow> bool" where
  "StopLeaderTasks_returns cm \<longleftrightarrow> cm_wg cm = 0"

definition set_task :: "nat \<Rightarrow> task_state \<Rightarrow> ControlManager \<Rightarrow> ControlManager" where
  "set_task t st cm = cm\<lparr>cm_tasks := (cm_tasks cm)[t := (cm_tasks cm ! t)\<lparr>task_at := st\<rparr>]\<rparr>"

text \<open>A task returns: its deferred \<open>wg.Done()\<close>.\<close>

definition task_return :: "nat \<Rightarrow> ControlManager \<Rightarrow> ControlManager" where
  "task_return t cm = (set_task t Finished cm)\<lparr>cm_wg := cm_wg cm - 1\<rparr>"

definition context_of :: "kvElection \<Rightarrow> task_context \<Rightarrow> Context" where
  "context_of e tc =
     (let c = get_ctx e (tc_parent tc)
      in if ctx_Err c = None \<and> tc_cancelled tc then c\<lparr>ctx_Err := Some Canceled\<rparr> else c)"

definition task_context_of :: "ControlManager \<Rightarrow> kvElection \<Rightarrow> nat \<Rightarrow> Context" where
  "task_context_of cm e t = context_of e (cm_contexts cm ! task_ctx (cm_tasks cm ! t))"

text \<open>
  A tick. If the token is not valid and the instance led, the election runs the demotion callback, that is
  \<open>StopLeaderTasks\<close>, within this very call.
\<close>

definition task_tick :: "'s KeyValue \<Rightarrow> int \<Rightarrow> error option \<Rightarrow> nat \<Rightarrow> ControlManager \<times> 's world
    \<Rightarrow> (ControlManager \<times> 's world) outcome" where
  "task_tick kv now late t x =
     (case x of (cm, w) \<Rightarrow>
       and_then (ValidateTokenOrDemote kv now (task_context_of cm (el w) t) late w) (\<lambda>(b, w').
         Done
           (if demoteCalls (el w') \<noteq> demoteCalls (el w) then (set_task t Stopping (StopLeaderTasks_cancel cm), w')
            else if \<not> b then (task_return t cm, w')
            else (cm, w'))))"

subsection \<open>Interleaving\<close>

text \<open>The election is used by the rest of the program too: it may change at any time.\<close>

inductive cm_step :: "'s KeyValue \<Rightarrow> ControlManager \<times> 's world \<Rightarrow> ControlManager \<times> 's world \<Rightarrow> bool" for kv where
  promote: "cm_step kv (cm, w) (promote_callback i tok cm, w)"
| ctx_done: "t < length (cm_tasks cm) \<Longrightarrow> task_at (cm_tasks cm ! t) = Selecting \<Longrightarrow>
    ctx_Err (task_context_of cm (el w) t) \<noteq> None \<Longrightarrow> cm_step kv (cm, w) (task_return t cm, w)"
| tick: "t < length (cm_tasks cm) \<Longrightarrow> task_at (cm_tasks cm ! t) = Selecting \<Longrightarrow>
    task_tick kv now late t (cm, w) = Done x \<Longrightarrow> cm_step kv (cm, w) x"
| own_stop_returns: "t < length (cm_tasks cm) \<Longrightarrow> task_at (cm_tasks cm ! t) = Stopping \<Longrightarrow>
    StopLeaderTasks_returns cm \<Longrightarrow> cm_step kv (cm, w) (task_return t cm, w)"
| stop_begins: "cm_step kv (cm, w) ((StopLeaderTasks_cancel cm)\<lparr>cm_waiters := cm_waiters cm + 1\<rparr>, w)"
| stop_returns: "0 < cm_waiters cm \<Longrightarrow> StopLeaderTasks_returns cm \<Longrightarrow>
    cm_step kv (cm, w) (cm\<lparr>cm_waiters := cm_waiters cm - 1\<rparr>, w)"
| election: "cm_step kv (cm, w) (cm, w')"

inductive_cases cm_stepE: "cm_step kv (cm, w) x"

text \<open>The wait group counts the tasks that have not returned.\<close>

definition unfinished :: "ControlManager \<Rightarrow> nat set" where
  "unfinished cm = {t. t < length (cm_tasks cm) \<and> task_at (cm_tasks cm ! t) \<noteq> Finished}"

definition cm_inv :: "ControlManager \<Rightarrow> bool" where
  "cm_inv cm \<longleftrightarrow> cm_wg cm = card (unfinished cm)"

lemma finite_unfinished [simp]: "finite (unfinished cm)"
  by (simp add: unfinished_def)

lemma StopLeaderTasks_cancel_simps [simp]:
  "cm_tasks (StopLeaderTasks_cancel cm) = cm_tasks cm" "cm_wg (StopLeaderTasks_cancel cm) = cm_wg cm"
  "cm_waiters (StopLeaderTasks_cancel cm) = cm_waiters cm" "cm_cancel (StopLeaderTasks_cancel cm) = None"
  "length (cm_contexts (StopLeaderTasks_cancel cm)) = length (cm_contexts cm)"
  by (simp_all add: StopLeaderTasks_cancel_def split: option.split)

lemma set_task_simps [simp]:
  "cm_wg (set_task t st cm) = cm_wg cm" "cm_waiters (set_task t st cm) = cm_waiters cm"
  "cm_contexts (set_task t st cm) = cm_contexts cm" "cm_cancel (set_task t st cm) = cm_cancel cm"
  "length (cm_tasks (set_task t st cm)) = length (cm_tasks cm)"
  by (simp_all add: set_task_def)

lemma set_task_at:
  assumes "t < length (cm_tasks cm)"
  shows "task_at (cm_tasks (set_task t st cm) ! u) = (if u = t then st else task_at (cm_tasks cm ! u))"
    and "task_ctx (cm_tasks (set_task t st cm) ! u) = task_ctx (cm_tasks cm ! u)"
  using assms by (simp_all add: set_task_def nth_list_update)

lemma task_return_simps [simp]:
  "cm_wg (task_return t cm) = cm_wg cm - 1" "cm_waiters (task_return t cm) = cm_waiters cm"
  "cm_tasks (task_return t cm) = cm_tasks (set_task t Finished cm)" "cm_contexts (task_return t cm) = cm_contexts cm"
  "cm_cancel (task_return t cm) = cm_cancel cm"
  by (simp_all add: task_return_def)

lemma unfinished_cong: "cm_tasks cm' = cm_tasks cm \<Longrightarrow> unfinished cm' = unfinished cm"
  by (simp add: unfinished_def)

lemma unfinished_set_task:
  "t \<in> unfinished cm \<Longrightarrow> unfinished (set_task t st cm) = (if st = Finished then unfinished cm - {t} else unfinished cm)"
  by (auto simp: unfinished_def set_task_at split: if_splits)

lemma cm_inv_New [simp]: "cm_inv NewControlManager"
  by (simp add: cm_inv_def NewControlManager_def unfinished_def)

lemma cm_inv_promote: "cm_inv cm \<Longrightarrow> cm_inv (promote_callback i tok cm)"
proof -
  assume "cm_inv cm"
  moreover have "unfinished (promote_callback i tok cm) = insert (length (cm_tasks cm)) (unfinished cm)"
    by (auto simp: promote_callback_def StartLeaderTasks_def unfinished_def Let_def nth_append)
  moreover have "length (cm_tasks cm) \<notin> unfinished cm" by (simp add: unfinished_def)
  ultimately show ?thesis by (simp add: cm_inv_def promote_callback_def StartLeaderTasks_def Let_def)
qed

lemma cm_inv_return: "cm_inv cm \<Longrightarrow> t \<in> unfinished cm \<Longrightarrow> cm_inv (task_return t cm)"
  using unfinished_cong [of "task_return t cm" "set_task t Finished cm"]
  by (simp add: cm_inv_def unfinished_set_task)

lemma cm_inv_cancel: "cm_inv cm \<Longrightarrow> cm_inv (StopLeaderTasks_cancel cm)"
  using unfinished_cong [of "StopLeaderTasks_cancel cm" cm] by (simp add: cm_inv_def)

lemma cm_inv_set_task: "cm_inv cm \<Longrightarrow> t \<in> unfinished cm \<Longrightarrow> st \<noteq> Finished \<Longrightarrow> cm_inv (set_task t st cm)"
  by (simp add: cm_inv_def unfinished_set_task)

lemma cm_inv_waiters [simp]: "cm_inv (cm\<lparr>cm_waiters := n\<rparr>) = cm_inv cm"
  using unfinished_cong [of "cm\<lparr>cm_waiters := n\<rparr>" cm] by (simp add: cm_inv_def)

lemma unfinishedI: "t < length (cm_tasks cm) \<Longrightarrow> task_at (cm_tasks cm ! t) = st \<Longrightarrow> st \<noteq> Finished \<Longrightarrow> t \<in> unfinished cm"
  by (simp add: unfinished_def)

lemma cm_inv_tick:
  assumes "task_tick kv now late t (cm, w) = Done (cm', w')" "cm_inv cm" "t \<in> unfinished cm"
  shows "cm_inv cm'"
proof -
  have "t \<in> unfinished (StopLeaderTasks_cancel cm)" using assms(3) unfinished_cong [of "StopLeaderTasks_cancel cm" cm] by simp
  then show ?thesis
    using assms by (auto simp: task_tick_def cm_inv_return cm_inv_set_task cm_inv_cancel split: if_splits)
qed

lemma cm_inv_step: "cm_step kv (cm, w) (cm', w') \<Longrightarrow> cm_inv cm \<Longrightarrow> cm_inv cm'"
  by (erule cm_stepE) (auto simp: cm_inv_promote cm_inv_cancel cm_inv_return unfinishedI dest: cm_inv_tick)

lemma cm_inv_steps: "(cm_step kv)\<^sup>*\<^sup>* (cm, w) (cm', w') \<Longrightarrow> cm_inv cm \<Longrightarrow> cm_inv cm'"
proof (induction rule: rtranclp_induct2)
  case (step a b a' b')
  then show ?case using cm_inv_step by blast
qed simp

subsection \<open>A task that stops its own leadership\<close>

text \<open>A task waiting in its own \<open>StopLeaderTasks\<close> keeps the counter positive, so nobody's wait ends.\<close>

definition stuck :: "nat \<Rightarrow> ControlManager \<Rightarrow> bool" where
  "stuck t cm \<longleftrightarrow> t < length (cm_tasks cm) \<and> task_at (cm_tasks cm ! t) = Stopping"

lemma stuck_positive: "cm_inv cm \<Longrightarrow> stuck t cm \<Longrightarrow> 0 < cm_wg cm"
  using card_gt_0_iff [of "unfinished cm"] unfinishedI [of t cm Stopping] by (auto simp: cm_inv_def stuck_def)

lemma stuck_tick:
  assumes "task_tick kv now late u (cm, w) = Done (cm', w')" "stuck t cm" "u < length (cm_tasks cm)" "task_at (cm_tasks cm ! u) = Selecting"
  shows "stuck t cm' \<and> cm_waiters cm' = cm_waiters cm"
  using assms by (auto simp: task_tick_def stuck_def set_task_at split: if_splits)

lemma stuck_promote: "stuck t cm \<Longrightarrow> stuck t (promote_callback i tok cm)"
  "cm_waiters (promote_callback i tok cm) = cm_waiters cm"
  by (auto simp: promote_callback_def StartLeaderTasks_def stuck_def Let_def nth_append)

lemma stuck_step:
  assumes "cm_step kv (cm, w) (cm', w')" "cm_inv cm" "stuck t cm"
  shows "stuck t cm' \<and> cm_waiters cm \<le> cm_waiters cm'"
proof -
  have n: "\<not> StopLeaderTasks_returns cm" using stuck_positive [OF assms(2,3)] by (simp add: StopLeaderTasks_returns_def)
  have r: "stuck t (task_return u cm)" if "u < length (cm_tasks cm)" "task_at (cm_tasks cm ! u) = Selecting" for u
    using that assms(3) by (auto simp: stuck_def set_task_at)
  have c: "stuck t ((StopLeaderTasks_cancel cm)\<lparr>cm_waiters := k\<rparr>)" for k using assms(3) by (simp add: stuck_def)
  show ?thesis
    using assms(1) by (rule cm_stepE)
      (use n r c assms(3) stuck_promote in \<open>auto dest: stuck_tick [OF _ assms(3)]\<close>)
qed

lemma stuck_forever:
  assumes "(cm_step kv)\<^sup>*\<^sup>* (cm, w) (cm', w')" "cm_inv cm" "stuck t cm"
  shows "stuck t cm' \<and> cm_waiters cm \<le> cm_waiters cm' \<and> cm_inv cm'"
  using assms(1)
proof (induction rule: rtranclp_induct2)
  case (step a b a' b')
  then show ?case using stuck_step cm_inv_step by (metis order_trans)
qed (use assms in simp)

lemma ValidateTokenOrDemote_demotes:
  assumes "isLeader (el w)" "\<not> mu (el w)" "log_ok (el w)" "ctx_corr c \<noteq> Some CorrOther"
    and "\<not> token_current kv w \<or> ctx_Err c \<noteq> None \<or> late \<noteq> None"
  shows "\<exists>w1. same_but_metrics (el w) (el w1) \<and>
    ValidateTokenOrDemote kv now c late w = Done (False, w1\<lparr>el := demoted_called now (el w1)\<rparr>)"
proof -
  obtain v err w1 where r: "validateToken kv c late w = Done ((v, err), w1)"
    using validateToken_returns [OF assms(4)] by metis
  note f = validateToken_frame [OF r]
  note s = same_but_metricsD [OF f [THEN conjunct2, THEN conjunct1]]
  have "\<not> v" using validateToken_value [OF r] assms(5) by blast
  moreover have "handleValidationFailure now (el w1) = Done (demoted_called now (el w1))"
    using s assms by (simp add: validation_failure.handler_returns)
  ultimately show ?thesis
    using r f s assms(1) by (intro exI [of _ w1]) (simp add: ValidateTokenOrDemote_def ValidateToken_def)
qed

text \<open>
  C33: When the task itself finds the token of the leader invalid, it never returns: the election runs
  the demotion callback inside \<open>ValidateTokenOrDemote\<close>, so \<open>StopLeaderTasks\<close> waits for the very task that
  called it. Whatever happens afterwards the task stays there, the counter stays positive, and no call of
  \<open>StopLeaderTasks\<close> by anybody returns any more.
\<close>

theorem leader_task_deadlock:
  assumes "(cm_step kv)\<^sup>*\<^sup>* (NewControlManager, w0) (cm, w)"
    and "t < length (cm_tasks cm)" "task_at (cm_tasks cm ! t) = Selecting"
    and "isLeader (el w)" "\<not> mu (el w)" "log_ok (el w)" "onDemote (el w) = Some cb"
    and "ctx_corr (task_context_of cm (el w) t) \<noteq> Some CorrOther" "\<not> token_current kv w"
  shows "\<exists>cm1 w1. task_tick kv now late t (cm, w) = Done (cm1, w1) \<and> \<not> isLeader (el w1) \<and>
    (\<forall>cm2 w2. (cm_step kv)\<^sup>*\<^sup>* (cm1, w1) (cm2, w2) \<longrightarrow>
       task_at (cm_tasks cm2 ! t) = Stopping \<and> \<not> StopLeaderTasks_returns cm2 \<and> cm_waiters cm1 \<le> cm_waiters cm2)"
proof -
  obtain w1 where s: "same_but_metrics (el w) (el w1)"
    and v: "ValidateTokenOrDemote kv now (task_context_of cm (el w) t) late w = Done (False, w1\<lparr>el := demoted_called now (el w1)\<rparr>)"
    using ValidateTokenOrDemote_demotes [OF assms(4-6,8)] assms(9) by metis
  let ?cm = "set_task t Stopping (StopLeaderTasks_cancel cm)"
  have tick: "task_tick kv now late t (cm, w) = Done (?cm, w1\<lparr>el := demoted_called now (el w1)\<rparr>)"
    using v same_but_metricsD [OF s] assms(7) by (simp add: task_tick_def)
  have i: "cm_inv ?cm"
    using cm_inv_tick [OF tick cm_inv_steps [OF assms(1)]] assms(2,3) by (simp add: unfinishedI)
  have st: "stuck t ?cm" using assms(2) by (simp add: stuck_def set_task_at)
  have "task_at (cm_tasks cm2 ! t) = Stopping \<and> \<not> StopLeaderTasks_returns cm2 \<and> cm_waiters ?cm \<le> cm_waiters cm2"
    if "(cm_step kv)\<^sup>*\<^sup>* (?cm, w1\<lparr>el := demoted_called now (el w1)\<rparr>) (cm2, w2)" for cm2 w2
    using stuck_forever [OF that i st] stuck_positive [of cm2 t] by (simp add: stuck_def StopLeaderTasks_returns_def)
  then show ?thesis using tick by (intro exI conjI) (assumption, simp, blast)
qed

theorem leader_task_deadlock_witness:
  "\<exists>cm1 w1. task_tick MockKeyValueAdapter 5 None 0 (promote_callback 0 ''tok'' NewControlManager, demo_world ''{}'') = Done (cm1, w1) \<and>
     \<not> isLeader (el w1) \<and> \<not> StopLeaderTasks_returns cm1"
proof -
  let ?cm = "promote_callback 0 ''tok'' NewControlManager" and ?w = "demo_world ''{}''"
  have r: "(cm_step MockKeyValueAdapter)\<^sup>*\<^sup>* (NewControlManager, ?w) (?cm, ?w)" by (rule r_into_rtranclp) (rule promote)
  have c: "\<not> token_current MockKeyValueAdapter ?w" by code_simp
  have t: "0 < length (cm_tasks ?cm)" "task_at (cm_tasks ?cm ! 0) = Selecting"
    by (simp_all add: promote_callback_def StartLeaderTasks_def NewControlManager_def)
  have w: "isLeader (el ?w)" "\<not> mu (el ?w)" "log_ok (el ?w)" "onDemote (el ?w) = Some 7"
    "ctx_corr (task_context_of ?cm (el ?w) 0) \<noteq> Some CorrOther"
    by (simp_all add: demo_world_def demo_leader_def init_election_def log_ok_def can_log_def get_ctx_def Background_def
        task_context_of_def context_of_def promote_callback_def StartLeaderTasks_def NewControlManager_def)
  from leader_task_deadlock [OF r t w c, of 5 None] show ?thesis by blast
qed

subsection \<open>Stopping the tasks from another goroutine\<close>

text \<open>
  Every task still running has a cancelled context or the one that \<open>StopLeaderTasks\<close> cancels next. A
  promotion on top of another one, with no demotion in between, would lose the older cancel function.
\<close>

definition covered :: "ControlManager \<Rightarrow> bool" where
  "covered cm \<longleftrightarrow> (\<forall>t \<in> unfinished cm. task_ctx (cm_tasks cm ! t) < length (cm_contexts cm) \<and>
     (tc_cancelled (cm_contexts cm ! task_ctx (cm_tasks cm ! t)) \<or> cm_cancel cm = Some (task_ctx (cm_tasks cm ! t))))"

definition all_cancelled :: "ControlManager \<Rightarrow> bool" where
  "all_cancelled cm \<longleftrightarrow> (\<forall>t \<in> unfinished cm. task_at (cm_tasks cm ! t) = Selecting \<and>
     tc_cancelled (cm_contexts cm ! task_ctx (cm_tasks cm ! t)))"

lemma covered_cancel:
  assumes "covered cm" "\<forall>t. \<not> stuck t cm"
  shows "all_cancelled ((StopLeaderTasks_cancel cm)\<lparr>cm_waiters := n\<rparr>)"
proof -
  have "task_at (cm_tasks cm ! t) = Selecting" if "t \<in> unfinished cm" for t
    using assms(2) that by (cases "task_at (cm_tasks cm ! t)") (auto simp: stuck_def unfinished_def)
  moreover have "tc_cancelled (cm_contexts (StopLeaderTasks_cancel cm) ! task_ctx (cm_tasks cm ! t))" if "t \<in> unfinished cm" for t
    using assms(1) that by (cases "cm_cancel cm"; cases "cm_cancel cm = Some (task_ctx (cm_tasks cm ! t))")
      (auto simp: covered_def StopLeaderTasks_cancel_def nth_list_update)
  ultimately show ?thesis
    using unfinished_cong [of "(StopLeaderTasks_cancel cm)\<lparr>cm_waiters := n\<rparr>" cm] by (simp add: all_cancelled_def)
qed

lemma covered_promote: "covered cm \<Longrightarrow> cm_cancel cm = None \<Longrightarrow> covered (promote_callback i tok cm)"
  by (auto simp: covered_def promote_callback_def StartLeaderTasks_def unfinished_def Let_def nth_append less_Suc_eq)

lemma cancelled_tasks_drain:
  assumes "cm_inv cm" "all_cancelled cm"
  shows "\<exists>cm'. (cm_step kv)\<^sup>*\<^sup>* (cm, w) (cm', w) \<and> unfinished cm' = {} \<and> cm_wg cm' = 0 \<and> cm_waiters cm' = cm_waiters cm"
  using assms
proof (induction "cm_wg cm" arbitrary: cm)
  case 0
  then show ?case by (intro exI [of _ cm]) (simp add: cm_inv_def)
next
  case (Suc n)
  then have "unfinished cm \<noteq> {}" by (auto simp: cm_inv_def)
  then obtain t where t: "t \<in> unfinished cm" by blast
  have u: "unfinished (task_return t cm) = unfinished cm - {t}"
    using unfinished_cong [of "task_return t cm" "set_task t Finished cm"] unfinished_set_task [OF t] by simp
  have l: "t < length (cm_tasks cm)" using t by (simp add: unfinished_def)
  have sel: "task_at (cm_tasks cm ! t) = Selecting" "tc_cancelled (cm_contexts cm ! task_ctx (cm_tasks cm ! t))"
    using Suc.prems(2) t by (simp_all add: all_cancelled_def)
  have "ctx_Err (task_context_of cm (el w) t) \<noteq> None" using sel(2) by (simp add: task_context_of_def context_of_def Let_def)
  then have st: "cm_step kv (cm, w) (task_return t cm, w)" using l sel(1) by (intro ctx_done)
  have c: "all_cancelled (task_return t cm)" using Suc.prems(2) u l by (auto simp: all_cancelled_def set_task_at)
  have "n = cm_wg (task_return t cm)" using Suc.hyps(2) by simp
  from Suc.hyps(1) [OF this cm_inv_return [OF Suc.prems(1) t] c] obtain cm'
    where "(cm_step kv)\<^sup>*\<^sup>* (task_return t cm, w) (cm', w)" "unfinished cm' = {}" "cm_wg cm' = 0" "cm_waiters cm' = cm_waiters cm" by auto
  then show ?case using st by (meson converse_rtranclp_into_rtranclp)
qed

text \<open>
  Called from any other goroutine, \<open>StopLeaderTasks\<close> stops the tasks: it cancels the context of every
  task still running, each of them can then return at its next \<open>select\<close> without waiting for anything else, and when
  they have, the wait ends.
\<close>

theorem leader_tasks_stop:
  assumes "(cm_step kv)\<^sup>*\<^sup>* (NewControlManager, w0) (cm, w)" "covered cm" "\<forall>t. \<not> stuck t cm"
  shows "\<exists>cm1 cm2. cm1 = (StopLeaderTasks_cancel cm)\<lparr>cm_waiters := cm_waiters cm + 1\<rparr> \<and> cm_step kv (cm, w) (cm1, w) \<and>
    (\<forall>t \<in> unfinished cm1. ctx_Err (task_context_of cm1 (el w) t) \<noteq> None) \<and>
    (cm_step kv)\<^sup>*\<^sup>* (cm1, w) (cm2, w) \<and> StopLeaderTasks_returns cm2 \<and> unfinished cm2 = {} \<and>
    cm_step kv (cm2, w) (cm2\<lparr>cm_waiters := cm_waiters cm\<rparr>, w)"
proof -
  let ?cm1 = "(StopLeaderTasks_cancel cm)\<lparr>cm_waiters := cm_waiters cm + 1\<rparr>"
  have i: "cm_inv ?cm1" using cm_inv_steps [OF assms(1)] by (simp add: cm_inv_cancel)
  have c: "all_cancelled ?cm1" using covered_cancel [OF assms(2,3)] .
  obtain cm2 where d: "(cm_step kv)\<^sup>*\<^sup>* (?cm1, w) (cm2, w)" "unfinished cm2 = {}" "cm_wg cm2 = 0" "cm_waiters cm2 = cm_waiters cm + 1"
    using cancelled_tasks_drain [OF i c, of kv w] by auto
  have "ctx_Err (task_context_of ?cm1 (el w) t) \<noteq> None" if "t \<in> unfinished ?cm1" for t
    using c that by (simp add: all_cancelled_def task_context_of_def context_of_def Let_def)
  moreover have "cm_step kv (cm2, w) (cm2\<lparr>cm_waiters := cm_waiters cm\<rparr>, w)"
    using stop_returns [of cm2 kv w] d(3,4) by (simp add: StopLeaderTasks_returns_def)
  ultimately show ?thesis
    using d stop_begins [of kv cm w] by (intro exI [of _ ?cm1] exI [of _ cm2]) (simp add: StopLeaderTasks_returns_def)
qed

theorem leader_tasks_stop_witness:
  "\<exists>cm2. (cm_step MockKeyValueAdapter)\<^sup>*\<^sup>*
      ((StopLeaderTasks_cancel (promote_callback 0 ''tok'' NewControlManager))\<lparr>cm_waiters := 1\<rparr>, demo_world ''{}'') (cm2, demo_world ''{}'') \<and>
    StopLeaderTasks_returns cm2 \<and> unfinished cm2 = {}"
proof -
  let ?cm = "promote_callback 0 ''tok'' NewControlManager" and ?w = "demo_world ''{}''"
  have r: "(cm_step MockKeyValueAdapter)\<^sup>*\<^sup>* (NewControlManager, ?w) (?cm, ?w)" by (rule r_into_rtranclp) (rule promote)
  have c: "covered ?cm"
    by (rule covered_promote) (simp_all add: covered_def NewControlManager_def unfinished_def)
  have s: "\<forall>t. \<not> stuck t ?cm" "cm_waiters ?cm = 0"
    by (auto simp: stuck_def promote_callback_def StartLeaderTasks_def NewControlManager_def)
  show ?thesis using leader_tasks_stop [OF r c s(1)] s(2) by auto
qed

end
