(* ===== verification/Example_Programs.thy ===== *)
theory Example_Programs
  imports Test_Support Lifecycle
begin

text \<open>
  The three programs that use the library: \<open>cmd/demo/main.go\<close>, \<open>examples/control_manager/main.go\<close> (its
  \<open>main\<close>; the tasks are in \<open>Control_Manager\<close>) and \<open>examples/multi_role/main.go\<close>. Each is a function of its
  environment: it starts, up to waiting for a signal, or ends with the message of \<open>log.Fatalf\<close>; and it shuts down.
  The NATS client is a parameter. Left out are printing and the connection handlers, which only print.
\<close>

subsection \<open>Environment and connection\<close>

text \<open>The host name is empty if it cannot be found: the programs ignore the error.\<close>

record environment =
  Getenv :: "string \<Rightarrow> string"
  Hostname :: string
  Getpid :: int

record connect_options =
  MaxReconnects :: int
  ReconnectWait :: duration

record ('k, 's) nats_client =
  DefaultURL :: string
  Connect :: "string \<Rightarrow> connect_options \<Rightarrow> 's \<Rightarrow> (error + ('k, 's) nats_conn) \<times> 's"

definition natsURL :: "('k, 's) nats_client \<Rightarrow> environment \<Rightarrow> string" where
  "natsURL nats env = (if Getenv env ''NATS_URL'' = [] then DefaultURL nats else Getenv env ''NATS_URL'')"

definition instanceID :: "environment \<Rightarrow> string" where
  "instanceID env =
     (if Getenv env ''INSTANCE_ID'' = [] then Hostname env @ ''-'' @ Itoa (Getpid env) else Getenv env ''INSTANCE_ID'')"

abbreviation bucketName :: string where "bucketName \<equiv> ''leaders''"

text \<open>\<open>pre\<close> starts the messages of the program.\<close>

definition open_bucket :: "string \<Rightarrow> ('k, 's) nats_client \<Rightarrow> environment \<Rightarrow> 's \<Rightarrow> (string + ('k, 's) nats_conn) \<times> 's" where
  "open_bucket pre nats env s0 =
     (case Connect nats (natsURL nats env) \<lparr>MaxReconnects = - 1, ReconnectWait = 2 * Second\<rparr> s0 of
        (Inl err, s1) \<Rightarrow> (Inl (pre @ ''Failed to connect to NATS: '' @ Error err), s1)
      | (Inr nc, s1) \<Rightarrow>
          (case conn_JetStream nc s1 of
             (Inl err, s2) \<Rightarrow> (Inl (pre @ ''Failed to get JetStream: '' @ Error err), s2)
           | (Inr _, s2) \<Rightarrow>
               (case js_CreateKeyValue nc \<lparr>kc_Bucket = bucketName, kc_TTL = 10 * Second\<rparr> s2 of
                  (Inr _, s3) \<Rightarrow> (Inr nc, s3)
                | (Inl err, s3) \<Rightarrow>
                    (case js_KeyValue nc bucketName s3 of
                       (Inl getErr, s4) \<Rightarrow> (Inl (pre @ ''Failed to create or get KV bucket: '' @ Error err), s4)
                     | (Inr _, s4) \<Rightarrow> (Inr nc, s4)))))"

text \<open>
  Creating an election on the connection, registering the two callbacks (by number) and starting it.
  \<open>NewElectionWithConn\<close> looks the bucket up on a JetStream context of its own.
\<close>

definition conn_lookup :: "('k, 's) nats_conn \<Rightarrow> 's \<Rightarrow> error + (string \<Rightarrow> error + 'k)" where
  "conn_lookup nc s =
     (case conn_JetStream nc s of (Inl err, _) \<Rightarrow> Inl err | (Inr _, s1) \<Rightarrow> Inr (\<lambda>b. fst (js_KeyValue nc b s1)))"

definition conn_after :: "('k, 's) nats_conn \<Rightarrow> string \<Rightarrow> 's \<Rightarrow> 's" where
  "conn_after nc b s =
     (case conn_JetStream nc s of (Inl _, s1) \<Rightarrow> s1 | (Inr _, s1) \<Rightarrow> snd (js_KeyValue nc b s1))"

definition start_election :: "string \<Rightarrow> string \<Rightarrow> ('t nats_KeyValue, 's) nats_conn \<Rightarrow> ElectionConfig \<Rightarrow> callback \<Rightarrow> callback \<Rightarrow> int \<Rightarrow> 's
    \<Rightarrow> (string + (kvElection \<times> 't KeyValue)) outcome" where
  "start_election newMsg startMsg nc c promote demote now s =
     (case NewElectionWithConn (conn_lookup nc s) c of
        Inl err \<Rightarrow> Done (Inl (newMsg @ Error err))
      | Inr (e, kv) \<Rightarrow>
          and_then (OnPromote (Some promote) e) (\<lambda>e.
            and_then (OnDemote (Some demote) e) (\<lambda>e.
              and_then (Start now Background e) (\<lambda>(err, e).
                case err of
                  Some err \<Rightarrow> Done (Inl (startMsg @ Error err))
                | None \<Rightarrow> Done (Inr (e, kv))))))"

definition role_config :: "string \<Rightarrow> string \<Rightarrow> ElectionConfig" where
  "role_config grp instance =
     \<lparr>Bucket = bucketName, Group = grp, InstanceID = instance, TTL = 10 * Second, HeartbeatInterval = 1 * Second,
      ValidationInterval = 5 * Second, DisconnectGracePeriod = 0, Metrics = False, HealthChecker = False,
      MaxConsecutiveFailures = 0, Priority = 0, AllowPriorityTakeover = False\<rparr>"

lemma role_config_valid: "g \<noteq> [] \<Longrightarrow> i \<noteq> [] \<Longrightarrow> validateConfig (role_config g i) = None"
  by (simp add: validateConfig_None_iff role_config_def i64_def)

lemma instanceID_nonempty [simp]: "instanceID env \<noteq> []"
  by (simp add: instanceID_def)

lemma role_config_simps [simp]:
  "Bucket (role_config g i) = bucketName" "Group (role_config g i) = g" "InstanceID (role_config g i) = i"
  by (simp_all add: role_config_def)

subsection \<open>The programs\<close>

text \<open>Their callbacks are numbered 0 (promotion) and 1 (demotion).\<close>

definition demo_main :: "('t nats_KeyValue, 's) nats_client \<Rightarrow> environment \<Rightarrow> int \<Rightarrow> 's \<Rightarrow> (string + (kvElection \<times> 't KeyValue)) outcome" where
  "demo_main nats env now s0 =
     (case open_bucket [] nats env s0 of
        (Inl msg, s1) \<Rightarrow> Done (Inl msg)
      | (Inr nc, s1) \<Rightarrow>
          start_election ''Failed to create election: '' ''Failed to start election: '' nc
            (role_config ''demo-group'' (instanceID env)) 0 1 now s1)"

definition control_manager_main :: "('t nats_KeyValue, 's) nats_client \<Rightarrow> environment \<Rightarrow> int \<Rightarrow> 's \<Rightarrow> (string + (kvElection \<times> 't KeyValue)) outcome" where
  "control_manager_main nats env now s0 =
     (case open_bucket ''[ControlManager] '' nats env s0 of
        (Inl msg, s1) \<Rightarrow> Done (Inl msg)
      | (Inr nc, s1) \<Rightarrow>
          start_election ''[ControlManager] Failed to create election: '' ''[ControlManager] Failed to start election: '' nc
            (role_config ''control-manager'' (instanceID env)) 0 1 now s1)"

text \<open>The shutdown of both: a context of ten seconds, the key deleted and the demotion callback awaited.\<close>

definition shutdown_ctx :: "int \<Rightarrow> duration \<Rightarrow> Context" where
  "shutdown_ctx now timeout = Background\<lparr>ctx_Deadline := Some (now + timeout)\<rparr>"

definition shutdown_options :: StopOptions where
  "shutdown_options = \<lparr>DeleteKey = True, WaitForDemote = True, Timeout = 0\<rparr>"

definition main_shutdown :: "'t KeyValue \<Rightarrow> ('t world \<Rightarrow> 't world) \<Rightarrow> int \<Rightarrow> wait_result \<Rightarrow> wait_result \<Rightarrow> 't world
    \<Rightarrow> (error option \<times> 't world) outcome" where
  "main_shutdown kv during now wt dw w = StopWithContext kv during now (shutdown_ctx now (10 * Second)) shutdown_options wt dw w"

subsection \<open>RoleManager\<close>

record 'e RoleManager =
  rm_elections :: "string \<rightharpoonup> 'e"

definition NewRoleManager :: "'e RoleManager" where
  "NewRoleManager = \<lparr>rm_elections = Map.empty\<rparr>"

definition AddRole :: "string \<Rightarrow> 'e \<Rightarrow> 'e RoleManager \<Rightarrow> 'e RoleManager" where
  "AddRole roleName election rm = rm\<lparr>rm_elections := (rm_elections rm)(roleName \<mapsto> election)\<rparr>"

text \<open>An election is the instance with the store it uses.\<close>

definition GetRoleStatus :: "(kvElection \<times> 't KeyValue) RoleManager \<Rightarrow> string \<rightharpoonup> bool" where
  "GetRoleStatus rm = (\<lambda>role. map_option (\<lambda>(e, kv). IsLeader e) (rm_elections rm role))"

text \<open>What is printed of each role; the order of a Go map is any.\<close>

datatype role_line = LineLeader | LineFollower string | LineNoLeader

definition PrintStatus :: "(kvElection \<times> 't KeyValue) RoleManager \<Rightarrow> string \<rightharpoonup> role_line" where
  "PrintStatus rm =
     (\<lambda>role.
        case GetRoleStatus rm role of
          None \<Rightarrow> None
        | Some led \<Rightarrow>
            if led then Some LineLeader
            else map_option (\<lambda>(e, kv). if LeaderID e \<noteq> [] then LineFollower (LeaderID e) else LineNoLeader) (rm_elections rm role))"

definition roles :: "string list" where
  "roles = [''database-writer'', ''scheduler'', ''metrics-collector'']"

text \<open>The loop over the roles; \<open>clock\<close> gives the time at which each is started.\<close>

fun start_roles :: "('t nats_KeyValue, 's) nats_conn \<Rightarrow> string \<Rightarrow> (string \<Rightarrow> int) \<Rightarrow> string list
    \<Rightarrow> (kvElection \<times> 't KeyValue) RoleManager \<Rightarrow> 's \<Rightarrow> (string + (kvElection \<times> 't KeyValue) RoleManager) outcome" where
  "start_roles nc instance clock [] rm s = Done (Inr rm)"
| "start_roles nc instance clock (role # rs) rm s =
     and_then
       (start_election (''Failed to create election for role '' @ [CHR 0x27] @ role @ [CHR 0x27] @ '': '')
          (''Failed to start election for role '' @ [CHR 0x27] @ role @ [CHR 0x27] @ '': '') nc (role_config role instance) 0 1 (clock role) s)
       (\<lambda>r. case r of
              Inl msg \<Rightarrow> Done (Inl msg)
            | Inr election \<Rightarrow> start_roles nc instance clock rs (AddRole role election rm) (conn_after nc bucketName s))"

definition multi_role_main :: "('t nats_KeyValue, 's) nats_client \<Rightarrow> environment \<Rightarrow> (string \<Rightarrow> int) \<Rightarrow> 's
    \<Rightarrow> (string + (kvElection \<times> 't KeyValue) RoleManager) outcome" where
  "multi_role_main nats env clock s0 =
     (case open_bucket [] nats env s0 of
        (Inl msg, s1) \<Rightarrow> Done (Inl msg)
      | (Inr nc, s1) \<Rightarrow> start_roles nc (instanceID env) clock roles NewRoleManager s1)"

text \<open>
  The shutdown: one context of fifteen seconds, the roles in some order, an error of one printed before the next.
  \<open>now\<close> and \<open>waits\<close> give for each role the time of its turn and how its waits end; \<open>during\<close> is what happens to
  its instance and the store while it is waited for, \<open>others\<close> what happens to all instances until the next turn.
\<close>

type_synonym 't role_manager = "(kvElection \<times> 't KeyValue) RoleManager"

fun stop_roles :: "Context \<Rightarrow> (string \<Rightarrow> int) \<Rightarrow> (string \<Rightarrow> wait_result \<times> wait_result) \<Rightarrow> (string \<Rightarrow> 't world \<Rightarrow> 't world)
    \<Rightarrow> (string \<Rightarrow> 't role_manager \<Rightarrow> 't role_manager) \<Rightarrow> string list \<Rightarrow> 't role_manager \<Rightarrow> 't
    \<Rightarrow> ((string \<times> error) list \<times> 't role_manager \<times> 't) outcome" where
  "stop_roles c now waits during others [] rm st = Done ([], rm, st)"
| "stop_roles c now waits during others (role # rs) rm st =
     (case rm_elections rm role of
        None \<Rightarrow> stop_roles c now waits during others rs rm st
      | Some (e, kv) \<Rightarrow>
          and_then (StopWithContext kv (during role) (now role) c shutdown_options (fst (waits role)) (snd (waits role)) \<lparr>el = e, store = st, uuids = 0\<rparr>)
            (\<lambda>(err, w).
               and_then (stop_roles c now waits during others rs
                   (others role (rm\<lparr>rm_elections := (rm_elections rm)(role \<mapsto> (el w, kv))\<rparr>)) (store w))
                 (\<lambda>(errs, rm', st'). Done ((case err of None \<Rightarrow> errs | Some x \<Rightarrow> (role, x) # errs), rm', st'))))"

definition multi_role_shutdown :: "int \<Rightarrow> (string \<Rightarrow> int) \<Rightarrow> (string \<Rightarrow> wait_result \<times> wait_result) \<Rightarrow> (string \<Rightarrow> 't world \<Rightarrow> 't world)
    \<Rightarrow> (string \<Rightarrow> 't role_manager \<Rightarrow> 't role_manager) \<Rightarrow> string list \<Rightarrow> 't role_manager \<Rightarrow> 't
    \<Rightarrow> ((string \<times> error) list \<times> 't role_manager \<times> 't) outcome" where
  "multi_role_shutdown start now waits during others order rm st =
     stop_roles (shutdown_ctx start (15 * Second)) now waits during others order rm st"

subsection \<open>Starting\<close>

text \<open>A client that works: the connection is made, JetStream is there and the bucket is found.\<close>

definition client_works :: "('k, 's) nats_client \<Rightarrow> bool" where
  "client_works nats \<longleftrightarrow>
     (\<forall>url opts s. case Connect nats url opts s of
        (Inl _, _) \<Rightarrow> False
      | (Inr nc, _) \<Rightarrow> (\<forall>s. \<not> isl (fst (conn_JetStream nc s))) \<and> (\<forall>s. \<not> isl (fst (js_KeyValue nc bucketName s))))"

definition started :: "string \<Rightarrow> environment \<Rightarrow> int \<Rightarrow> kvElection" where
  "started grp env now =
     (init_election (role_config grp (instanceID env)) False)
       \<lparr>onPromote := Some 0, onDemote := Some 1, contexts := [Background], ctx := Some 0, cancel := Some 0,
        state := StateCandidate, lastTransition := Some now, gos := [Go_startAcquire], wg := 1\<rparr>"

lemma started_simps [simp]:
  "state (started g env now) = StateCandidate" "key (started g env now) = g" "\<not> isLeader (started g env now)"
  "InstanceID (cfg (started g env now)) = instanceID env" "gos (started g env now) = [Go_startAcquire]"
  "el_inv (started g env now)" "ctx (started g env now) = Some 0"
  by (simp_all add: started_def init_election_def el_inv_def)

lemma start_election_works:
  assumes "\<And>s. \<not> isl (fst (conn_JetStream nc s))" "\<And>s. \<not> isl (fst (js_KeyValue nc bucketName s))" "grp \<noteq> []"
  shows "\<exists>kv. start_election newMsg startMsg nc (role_config grp (instanceID env)) 0 1 now s = Done (Inr (started grp env now, kv))"
proof -
  obtain u s1 where j: "conn_JetStream nc s = (Inr u, s1)"
    using assms(1) [of s] by (cases "conn_JetStream nc s"; cases "fst (conn_JetStream nc s)") auto
  obtain nkv where k: "fst (js_KeyValue nc bucketName s1) = Inr nkv" using assms(2) [of s1] by (cases "fst (js_KeyValue nc bucketName s1)") auto
  have n: "NewElectionWithConn (conn_lookup nc s) (role_config grp (instanceID env)) =
      Inr (init_election (role_config grp (instanceID env)) False, natsKeyValueAdapter nkv)"
    using j k assms(3) by (simp add: NewElectionWithConn_def NewElection_def newKVElection_def conn_lookup_def role_config_valid)
  show ?thesis
    unfolding start_election_def n
    by (simp add: OnPromote_def OnDemote_def Start_def Lock_def Unlock_def go_def started_def init_election_def Let_def
        and_then_logFields Background_def)
qed

lemma open_bucket_works:
  assumes "client_works nats"
  shows "\<exists>nc s1. open_bucket pre nats env s = (Inr nc, s1) \<and> (\<forall>s. \<not> isl (fst (conn_JetStream nc s))) \<and> (\<forall>s. \<not> isl (fst (js_KeyValue nc bucketName s)))"
proof -
  let ?opts = "\<lparr>MaxReconnects = - 1, ReconnectWait = 2 * Second\<rparr>"
  obtain r s1 where r: "Connect nats (natsURL nats env) ?opts s = (r, s1)" by (cases "Connect nats (natsURL nats env) ?opts s")
  have "case Connect nats (natsURL nats env) ?opts s of
        (Inl _, _) \<Rightarrow> False
      | (Inr nc, _) \<Rightarrow> (\<forall>s. \<not> isl (fst (conn_JetStream nc s))) \<and> (\<forall>s. \<not> isl (fst (js_KeyValue nc bucketName s)))"
    by (rule assms [unfolded client_works_def, rule_format])
  then obtain nc where nc: "r = Inr nc" "\<forall>s. \<not> isl (fst (conn_JetStream nc s))" "\<forall>s. \<not> isl (fst (js_KeyValue nc bucketName s))"
    using r by (cases r) auto
  obtain u s2 where j: "conn_JetStream nc s1 = (Inr u, s2)"
    using nc(2) by (cases "conn_JetStream nc s1"; cases "fst (conn_JetStream nc s1)") (auto dest: spec [of _ s1])
  obtain q s3 where c: "js_CreateKeyValue nc \<lparr>kc_Bucket = bucketName, kc_TTL = 10 * Second\<rparr> s2 = (q, s3)"
    by (cases "js_CreateKeyValue nc \<lparr>kc_Bucket = bucketName, kc_TTL = 10 * Second\<rparr> s2")
  obtain v s4 where k: "js_KeyValue nc bucketName s3 = (Inr v, s4)"
    using nc(3) by (cases "js_KeyValue nc bucketName s3"; cases "fst (js_KeyValue nc bucketName s3)") (auto dest: spec [of _ s3])
  have "\<exists>s1. open_bucket pre nats env s = (Inr nc, s1)"
    using r nc(1) j c k by (cases q) (simp_all add: open_bucket_def)
  with nc(2,3) show ?thesis by blast
qed

lemma start_roles_works:
  assumes "\<And>s. \<not> isl (fst (conn_JetStream nc s))" "\<And>s. \<not> isl (fst (js_KeyValue nc bucketName s))" "[] \<notin> set rs"
  shows "\<exists>rm'. start_roles nc (instanceID env) clock rs rm s = Done (Inr rm') \<and>
    (\<forall>r. r \<notin> set rs \<longrightarrow> rm_elections rm' r = rm_elections rm r) \<and>
    (\<forall>r \<in> set rs. \<exists>kv. rm_elections rm' r = Some (started r env (clock r), kv))"
  using assms(3)
proof (induction rs arbitrary: rm s)
  case (Cons r rs)
  let ?n = "''Failed to create election for role '' @ [CHR 0x27] @ r @ [CHR 0x27] @ '': ''"
  let ?m = "''Failed to start election for role '' @ [CHR 0x27] @ r @ [CHR 0x27] @ '': ''"
  obtain kv where e: "start_election ?n ?m nc (role_config r (instanceID env)) 0 1 (clock r) s = Done (Inr (started r env (clock r), kv))"
    using start_election_works [OF assms(1,2), of r ?n ?m env "clock r" s] Cons.prems by auto
  obtain rm' where rm': "start_roles nc (instanceID env) clock rs (AddRole r (started r env (clock r), kv) rm) (conn_after nc bucketName s) = Done (Inr rm')"
    "\<forall>x. x \<notin> set rs \<longrightarrow> rm_elections rm' x = rm_elections (AddRole r (started r env (clock r), kv) rm) x"
    "\<forall>x \<in> set rs. \<exists>kv. rm_elections rm' x = Some (started x env (clock x), kv)"
    using Cons.IH Cons.prems by (metis list.set_intros(2))
  have "rm_elections rm' r = Some (started r env (clock r), kv)" if "r \<notin> set rs" using rm'(2) that by (simp add: AddRole_def)
  then show ?case using e rm' by (intro exI [of _ rm']) (auto simp: AddRole_def)
qed simp

text \<open>
  C40: With a client that works, and whatever the environment says, each of the three programs starts: its
  configuration is accepted, and every election is a candidate under its own key, with a non-empty instance id, about to make its
  first attempt. The program with several roles has one election for each of its three roles and no other.
\<close>

theorem programs_start:
  assumes "client_works nats"
  shows "(\<exists>kv. demo_main nats env now s = Done (Inr (started ''demo-group'' env now, kv))) \<and>
    (\<exists>kv. control_manager_main nats env now s = Done (Inr (started ''control-manager'' env now, kv))) \<and>
    (\<exists>rm. multi_role_main nats env clock s = Done (Inr rm) \<and> dom (rm_elections rm) = set roles \<and>
      (\<forall>r \<in> set roles. \<exists>kv. rm_elections rm r = Some (started r env (clock r), kv))) \<and>
    (\<forall>g. key (started g env now) = g \<and> state (started g env now) = StateCandidate \<and> InstanceID (cfg (started g env now)) \<noteq> [] \<and>
      gos (started g env now) = [Go_startAcquire] \<and> el_inv (started g env now))"
proof -
  obtain nc s1 where d: "open_bucket [] nats env s = (Inr nc, s1)" "\<And>s. \<not> isl (fst (conn_JetStream nc s))" "\<And>s. \<not> isl (fst (js_KeyValue nc bucketName s))"
    using open_bucket_works [OF assms, of "[]" env s] by blast
  obtain nc2 s2 where c: "open_bucket ''[ControlManager] '' nats env s = (Inr nc2, s2)" "\<And>s. \<not> isl (fst (conn_JetStream nc2 s))"
    "\<And>s. \<not> isl (fst (js_KeyValue nc2 bucketName s))"
    using open_bucket_works [OF assms, of "''[ControlManager] ''" env s] by blast
  have "\<exists>kv. demo_main nats env now s = Done (Inr (started ''demo-group'' env now, kv))"
    using start_election_works [OF d(2,3)] d(1) by (simp add: demo_main_def)
  moreover have "\<exists>kv. control_manager_main nats env now s = Done (Inr (started ''control-manager'' env now, kv))"
    using start_election_works [OF c(2,3)] c(1) by (simp add: control_manager_main_def)
  moreover obtain rm where rm: "start_roles nc (instanceID env) clock roles NewRoleManager s1 = Done (Inr rm)"
    "\<forall>r. r \<notin> set roles \<longrightarrow> rm_elections rm r = None" "\<forall>r \<in> set roles. \<exists>kv. rm_elections rm r = Some (started r env (clock r), kv)"
    using start_roles_works [OF d(2,3), of roles env clock NewRoleManager s1] by (auto simp: roles_def NewRoleManager_def)
  have "dom (rm_elections rm) = set roles" using rm(2,3) by (auto simp: dom_def)
  then have "\<exists>rm. multi_role_main nats env clock s = Done (Inr rm) \<and> dom (rm_elections rm) = set roles \<and>
      (\<forall>r \<in> set roles. \<exists>kv. rm_elections rm r = Some (started r env (clock r), kv))"
    using rm d(1) by (simp add: multi_role_main_def)
  ultimately show ?thesis by simp
qed

text \<open>A client whose connection is made and whose bucket is there: the state is the list of the buckets.\<close>

definition test_client :: "(MockKeyValue nats_KeyValue, string list) nats_client" where
  "test_client = \<lparr>DefaultURL = ''nats://127.0.0.1:4222'', Connect = (\<lambda>url opts s. (Inr \<lparr>
     conn_JetStream = (\<lambda>s. (Inr (), s)),
     js_KeyValue = (\<lambda>b s. (Inr \<lparr>nats_Create = mock_Create, nats_Update = mock_Update, nats_Get = (\<lambda>k s. (mock_Get k s, s)),
        nats_Delete = mock_Delete, nats_Watch = (\<lambda>k s. (mock_Watch k s, s))\<rparr>, s)),
     js_CreateKeyValue = (\<lambda>kc s. (Inl (ErrorString ''nats: stream name already in use''), s)),
     js_DeleteKeyValue = (\<lambda>b s. (None, s))\<rparr>, s))\<rparr>"

theorem programs_start_witness:
  "\<exists>kv. demo_main test_client \<lparr>Getenv = (\<lambda>_. []), Hostname = ''host'', Getpid = 7\<rparr> 3 [] =
    Done (Inr (started ''demo-group'' \<lparr>Getenv = (\<lambda>_. []), Hostname = ''host'', Getpid = 7\<rparr> 3, kv))"
proof -
  have "client_works test_client" by (simp add: client_works_def test_client_def)
  from programs_start [OF this] show ?thesis by blast
qed

subsection \<open>Shutting down\<close>

text \<open>
  What may happen to an instance that nobody starts or stops: its operations keep its invariant and its
  context, and a context that is done stays done.
\<close>

definition ended :: "kvElection \<Rightarrow> ctx_id \<Rightarrow> bool" where
  "ended e i \<longleftrightarrow> ctx_Err (get_ctx e i) \<noteq> None"

definition carries_on :: "kvElection \<Rightarrow> kvElection \<Rightarrow> bool" where
  "carries_on e e' \<longleftrightarrow> (el_inv e \<longrightarrow> el_inv e') \<and> ctx e' = ctx e \<and> (\<forall>i. ended e i \<longrightarrow> ended e' i)"

definition roles_carry_on :: "'t role_manager \<Rightarrow> 't role_manager \<Rightarrow> bool" where
  "roles_carry_on rm rm' \<longleftrightarrow> dom (rm_elections rm') = dom (rm_elections rm) \<and>
     (\<forall>r e kv. rm_elections rm r = Some (e, kv) \<longrightarrow> (\<exists>e'. rm_elections rm' r = Some (e', kv) \<and> carries_on e e'))"

lemma el_inv_stopped: "el_inv e \<Longrightarrow> el_inv (stopped now e)"
  using held_inv_set_stopped [of e False now]
  by (simp add: el_inv_def held_inv_defs stopped_def) (simp add: stop_monitor_def Unlock_def)

lemma ended_call_demote [simp]: "ended (call_demote opts b (e\<lparr>ctx := c\<rparr>)) i = ended e i"
  by (auto simp: ended_def call_demote_def go_def get_ctx_def split: option.split)

text \<open>Stopping one role.\<close>

lemma StopWithContext_stops:
  assumes "el_inv (el w)" "ctx (el w) = Some i" "ctx_corr c \<noteq> Some CorrOther" "\<And>x. carries_on (el x) (el (during x))"
  shows "\<exists>err w'. StopWithContext kv during now c opts wt dw w = Done (err, w') \<and> ended (el w') i \<and>
    ctx (el w') = (if wt = WaitDone then None else Some i) \<and>
    (wt \<noteq> WaitDone \<longrightarrow> err \<noteq> None) \<and> (wt = WaitDone \<and> dw = WaitDone \<longrightarrow> err = None)"
proof -
  let ?s = "w\<lparr>el := stopped now (el w)\<rparr>"
  define w1 where "w1 = during ?s"
  have q: "carries_on (stopped now (el w)) (el w1)" using assms(4) [of ?s] by (simp add: w1_def)
  have mu: "\<not> mu (el w)" "\<not> mu (el w1)" using assms(1) el_inv_stopped [OF assms(1), of now] q by (auto simp: carries_on_def el_inv_def)
  have i: "ended (el w1) i" "ctx (el w1) = Some i"
    using q stopped_ctx_done [OF assms(1,2), of now] assms(2) by (auto simp: carries_on_def ended_def)
  have "ctx (el w) \<noteq> None" using assms(2) by simp
  from StopWithContext_outcome [where during = during, OF mu(1) this assms(3) w1_def mu(2), of kv opts wt dw] i
  show ?thesis by auto
qed

lemma carries_on_trans: "carries_on a b \<Longrightarrow> carries_on b c \<Longrightarrow> carries_on a c"
  by (auto simp: carries_on_def)

text \<open>An attempt in flight may end in a promotion or a demotion: both carry on.\<close>

lemma carries_on_promoted: "carries_on e (promoted now tok rv e)"
  by (simp add: carries_on_def ended_def el_inv_def get_ctx_def)

lemma carries_on_demoted: "carries_on e (demoted now e)"
  using held_inv_demoted [of e False now]
  by (auto simp: carries_on_def ended_def el_inv_def held_inv_defs get_ctx_def)

text \<open>A role is stopped when the context it ran under is done; the context is forgotten exactly if its wait ended.\<close>

definition role_stopped :: "ctx_id \<Rightarrow> wait_result \<Rightarrow> kvElection \<Rightarrow> bool" where
  "role_stopped i wt e \<longleftrightarrow> ended e i \<and> ctx e = (if wt = WaitDone then None else Some i)"

lemma role_stopped_carries_on: "role_stopped i wt e \<Longrightarrow> carries_on e e' \<Longrightarrow> role_stopped i wt e'"
  by (auto simp: role_stopped_def carries_on_def)

lemma stop_roles_stops:
  assumes "distinct order" "\<forall>r \<in> set order. \<exists>e kv. rm_elections rm r = Some (e, kv) \<and> el_inv e \<and> ctx e = Some (cs r)"
    and c: "ctx_corr c \<noteq> Some CorrOther" and during: "\<forall>r x. carries_on (el x) (el (during r x))" and others: "\<forall>r rm. roles_carry_on rm (others r rm)"
  shows "\<exists>errs rm' st'. stop_roles c now waits during others order rm st = Done (errs, rm', st') \<and>
    (\<forall>r \<in> set order. \<exists>e kv. rm_elections rm' r = Some (e, kv) \<and> role_stopped (cs r) (fst (waits r)) e) \<and>
    (\<forall>r e kv. r \<notin> set order \<longrightarrow> rm_elections rm r = Some (e, kv) \<longrightarrow> (\<exists>e'. rm_elections rm' r = Some (e', kv) \<and> carries_on e e')) \<and>
    {r \<in> set order. fst (waits r) \<noteq> WaitDone} \<subseteq> fst ` set errs \<and>
    fst ` set errs \<subseteq> {r \<in> set order. waits r \<noteq> (WaitDone, WaitDone)}"
  using assms(1,2)
proof (induction order arbitrary: rm st)
  case Nil
  show ?case by (auto simp: carries_on_def)
next
  case (Cons r rs)
  obtain e kv where e: "rm_elections rm r = Some (e, kv)" "el_inv e" "ctx e = Some (cs r)" using Cons.prems(2) by auto
  obtain err w where w: "StopWithContext kv (during r) (now r) c shutdown_options (fst (waits r)) (snd (waits r)) \<lparr>el = e, store = st, uuids = 0\<rparr> = Done (err, w)"
    "role_stopped (cs r) (fst (waits r)) (el w)" "fst (waits r) \<noteq> WaitDone \<longrightarrow> err \<noteq> None" "waits r = (WaitDone, WaitDone) \<longrightarrow> err = None"
  proof -
    have "\<exists>err w'. StopWithContext kv (during r) (now r) c shutdown_options (fst (waits r)) (snd (waits r)) \<lparr>el = e, store = st, uuids = 0\<rparr> = Done (err, w') \<and>
        ended (el w') (cs r) \<and> ctx (el w') = (if fst (waits r) = WaitDone then None else Some (cs r)) \<and>
        (fst (waits r) \<noteq> WaitDone \<longrightarrow> err \<noteq> None) \<and> (fst (waits r) = WaitDone \<and> snd (waits r) = WaitDone \<longrightarrow> err = None)"
      by (rule StopWithContext_stops) (use e(2,3) c during in simp_all)
    then show thesis by (elim exE conjE) (rule that, assumption, simp_all add: role_stopped_def)
  qed
  define rm1 where "rm1 = rm\<lparr>rm_elections := (rm_elections rm)(r \<mapsto> (el w, kv))\<rparr>"
  have step: "\<exists>a'. rm_elections (others r rm1) x = Some (a', k) \<and> carries_on a a'" if "rm_elections rm1 x = Some (a, k)" for x a k
    using others that unfolding roles_carry_on_def by blast
  have r: "r \<notin> set rs" "distinct rs" using Cons.prems(1) by simp_all
  have "\<forall>x \<in> set rs. \<exists>e kv. rm_elections (others r rm1) x = Some (e, kv) \<and> el_inv e \<and> ctx e = Some (cs x)"
  proof
    fix x assume x: "x \<in> set rs"
    obtain a k where a: "rm_elections rm x = Some (a, k)" "el_inv a" "ctx a = Some (cs x)" using Cons.prems(2) x by auto
    then have "rm_elections rm1 x = Some (a, k)" using x r(1) by (auto simp: rm1_def)
    from step [OF this] a(2,3) show "\<exists>e kv. rm_elections (others r rm1) x = Some (e, kv) \<and> el_inv e \<and> ctx e = Some (cs x)"
      by (auto simp: carries_on_def)
  qed
  from Cons.IH [OF r(2) this, of "store w"] obtain errs rm' st' where s: "stop_roles c now waits during others rs (others r rm1) (store w) = Done (errs, rm', st')"
    "\<forall>x \<in> set rs. \<exists>e kv. rm_elections rm' x = Some (e, kv) \<and> role_stopped (cs x) (fst (waits x)) e"
    "\<forall>x e kv. x \<notin> set rs \<longrightarrow> rm_elections (others r rm1) x = Some (e, kv) \<longrightarrow> (\<exists>e'. rm_elections rm' x = Some (e', kv) \<and> carries_on e e')"
    "{x \<in> set rs. fst (waits x) \<noteq> WaitDone} \<subseteq> fst ` set errs" "fst ` set errs \<subseteq> {x \<in> set rs. waits x \<noteq> (WaitDone, WaitDone)}"
    by (elim exE conjE) (rule that, assumption+)
  have on: "\<exists>a'. rm_elections rm' x = Some (a', k) \<and> carries_on a a'" if x: "x \<notin> set rs" "rm_elections rm1 x = Some (a, k)" for x a k
    using step [OF x(2)] s(3) x(1) by (meson carries_on_trans)
  have stopped: "\<exists>e kv. rm_elections rm' r = Some (e, kv) \<and> role_stopped (cs r) (fst (waits r)) e"
    using on [OF r(1), of "el w" kv] w(2) role_stopped_carries_on by (auto simp: rm1_def)
  let ?errs = "case err of None \<Rightarrow> errs | Some x \<Rightarrow> (r, x) # errs"
  have errs: "fst ` set ?errs = (if err = None then {} else {r}) \<union> fst ` set errs" by (cases err) auto
  show ?case
  proof (intro exI conjI)
    show "stop_roles c now waits during others (r # rs) rm st = Done (?errs, rm', st')" using e(1) w(1) s(1) by (simp add: rm1_def)
    show "\<forall>x \<in> set (r # rs). \<exists>e kv. rm_elections rm' x = Some (e, kv) \<and> role_stopped (cs x) (fst (waits x)) e" using stopped s(2) by simp
    show "\<forall>x a k. x \<notin> set (r # rs) \<longrightarrow> rm_elections rm x = Some (a, k) \<longrightarrow> (\<exists>a'. rm_elections rm' x = Some (a', k) \<and> carries_on a a')"
      using on by (simp add: rm1_def)
    show "{x \<in> set (r # rs). fst (waits x) \<noteq> WaitDone} \<subseteq> fst ` set ?errs" unfolding errs using s(4) w(3) by auto
    show "fst ` set ?errs \<subseteq> {x \<in> set (r # rs). waits x \<noteq> (WaitDone, WaitDone)}" unfolding errs using s(5) w(4) by auto
  qed
qed

text \<open>
  C39: Shutting the program with several roles down, in whatever order its map of elections is walked through,
  however the waits end and whatever the goroutines of the roles do meanwhile (an attempt in flight may end in a
  promotion or a demotion) short of starting or stopping a role or holding its lock for ever, ends, and stops every role: the context it was started under is done, and it is forgotten exactly if the
  wait for the role's goroutines ended. An error of one role does not keep the next from being stopped: a role
  whose goroutines did not end is always reported, and no other role is, unless its demotion callback was late.
\<close>

theorem multi_role_shutdown_stops:
  assumes "distinct order" "set order = dom (rm_elections rm)"
    and "\<forall>r e kv. rm_elections rm r = Some (e, kv) \<longrightarrow> el_inv e \<and> ctx e = Some (cs r)"
    and "\<forall>r x. carries_on (el x) (el (during r x))" "\<forall>r rm. roles_carry_on rm (others r rm)"
  shows "\<exists>errs rm' st'. multi_role_shutdown start now waits during others order rm st = Done (errs, rm', st') \<and>
    (\<forall>r \<in> set order. \<exists>e kv. rm_elections rm' r = Some (e, kv) \<and> ended e (cs r) \<and>
       (ctx e = None \<longleftrightarrow> fst (waits r) = WaitDone)) \<and>
    {r \<in> set order. fst (waits r) \<noteq> WaitDone} \<subseteq> fst ` set errs \<and>
    fst ` set errs \<subseteq> {r \<in> set order. waits r \<noteq> (WaitDone, WaitDone)}"
proof -
  have "\<forall>r \<in> set order. \<exists>e kv. rm_elections rm r = Some (e, kv) \<and> el_inv e \<and> ctx e = Some (cs r)"
    using assms(2,3) by fastforce
  note roles = this
  have "ctx_corr (shutdown_ctx start (15 * Second)) \<noteq> Some CorrOther" by (simp add: shutdown_ctx_def Background_def)
  from stop_roles_stops [OF assms(1) roles this assms(4,5), of now waits st]
  obtain errs rm' st' where s: "stop_roles (shutdown_ctx start (15 * Second)) now waits during others order rm st = Done (errs, rm', st')"
    "\<forall>r \<in> set order. \<exists>e kv. rm_elections rm' r = Some (e, kv) \<and> role_stopped (cs r) (fst (waits r)) e"
    "{r \<in> set order. fst (waits r) \<noteq> WaitDone} \<subseteq> fst ` set errs" "fst ` set errs \<subseteq> {r \<in> set order. waits r \<noteq> (WaitDone, WaitDone)}"
    by (elim exE conjE) (rule that, assumption+)
  have "\<forall>r \<in> set order. \<exists>e kv. rm_elections rm' r = Some (e, kv) \<and> ended e (cs r) \<and> (ctx e = None \<longleftrightarrow> fst (waits r) = WaitDone)"
    using s(2) by (fastforce simp: role_stopped_def split: if_splits)
  with s(1,3,4) show ?thesis by (simp add: multi_role_shutdown_def)
qed

text \<open>
  Two roles on the test store, the first of which cannot be stopped in time: while they are waited for, the first
  is promoted and the second demoted.
\<close>

definition busy :: "string \<Rightarrow> 's world \<Rightarrow> 's world" where
  "busy r w = w\<lparr>el := (if r = ''a'' then promoted 6 ''t'' 1 (el w) else demoted 6 (el w))\<rparr>"

definition two_roles :: "MockKeyValue role_manager" where
  "two_roles = AddRole ''a'' (started ''a'' \<lparr>Getenv = (\<lambda>_. []), Hostname = ''host'', Getpid = 7\<rparr> 3, MockKeyValueAdapter)
     (AddRole ''b'' (started ''b'' \<lparr>Getenv = (\<lambda>_. []), Hostname = ''host'', Getpid = 7\<rparr> 3, MockKeyValueAdapter) NewRoleManager)"

theorem multi_role_shutdown_stops_witness:
  "\<exists>errs rm' st'. multi_role_shutdown 0 (\<lambda>_. 5) (\<lambda>r. (if r = ''a'' then WaitTimeout else WaitDone, WaitDone)) busy (\<lambda>_. id) [''a'', ''b'']
      two_roles NewMockKeyValue = Done (errs, rm', st') \<and>
    (\<forall>r \<in> set [''a'', ''b'']. \<exists>e kv. rm_elections rm' r = Some (e, kv) \<and> ended e 0 \<and> (ctx e = None \<longleftrightarrow> r = ''b'')) \<and>
    fst ` set errs = {''a''}"
proof -
  let ?waits = "\<lambda>r. (if r = ''a'' then WaitTimeout else WaitDone, WaitDone)"
  have "set [''a'', ''b''] = dom (rm_elections two_roles)" by (auto simp: two_roles_def AddRole_def NewRoleManager_def)
  moreover have "\<forall>r e kv. rm_elections two_roles r = Some (e, kv) \<longrightarrow> el_inv e \<and> ctx e = Some ((\<lambda>_. 0) r)"
    by (auto simp: two_roles_def AddRole_def NewRoleManager_def split: if_splits)
  moreover have "\<forall>r x. carries_on (el x) (el (busy r x))" by (simp add: busy_def carries_on_promoted carries_on_demoted)
  moreover have "\<forall>r rm. roles_carry_on rm ((\<lambda>_. id) r rm)" by (simp add: roles_carry_on_def carries_on_def)
  ultimately have "\<exists>errs rm' st'. multi_role_shutdown 0 (\<lambda>_. 5) ?waits busy (\<lambda>_. id) [''a'', ''b''] two_roles NewMockKeyValue = Done (errs, rm', st') \<and>
    (\<forall>r \<in> set [''a'', ''b'']. \<exists>e kv. rm_elections rm' r = Some (e, kv) \<and> ended e ((\<lambda>_. 0) r) \<and> (ctx e = None \<longleftrightarrow> fst (?waits r) = WaitDone)) \<and>
    {r \<in> set [''a'', ''b'']. fst (?waits r) \<noteq> WaitDone} \<subseteq> fst ` set errs \<and>
    fst ` set errs \<subseteq> {r \<in> set [''a'', ''b'']. ?waits r \<noteq> (WaitDone, WaitDone)}"
    by (intro multi_role_shutdown_stops) simp_all
  then show ?thesis by (elim exE conjE) (intro exI conjI, assumption, auto)
qed

end
