(* ===== verification/Spec2Isabelle.thy ===== *)
theory Spec2Isabelle
  imports Leader_Prelude Go_Strings Leader_Errors Leader_Config Go_Json Key_Value Connection_Monitor
    Election_State Acquire Fencing Heartbeat Watcher_Loop Disconnect Go_Float Backoff Retry Lifecycle
    Prometheus Takeover Cluster Lease Timing Test_Support Control_Manager Example_Programs
begin

text \<open>
  Verification of the NATS leader-election library (Go: \<open>src/leader\<close>, \<open>src/internal/natsmock\<close>, and the programs
  under \<open>src/cmd\<close> and \<open>src/examples\<close> that use it).

  \<^bold>\<open>The program.\<close> Several processes of a group compete for one key of a NATS key-value bucket. An
  instance (\<open>kvElection\<close>) that creates the key leads; it renews the key by conditional updates
  (heartbeats), validates the fencing token it wrote, watches the key while it follows, takes over
  from a leader of lower priority if configured to, and gives up leadership when a heartbeat, a
  validation, a health check or its connection fails. Each instance runs several goroutines (the
  acquisition, the heartbeat loop, the validation loop, the watcher, timers and callbacks) over one
  struct with a mutex and atomics; instances share only the store.

  \<^bold>\<open>Theories and sources.\<close> Each theory follows the order of the code it translates.
  \<^item> \<open>Leader_Prelude\<close>: wrap-around of Go's integers, outcomes of a piece of code (it returns, blocks
    for ever on its own mutex, or panics), labelled transition systems with the locales
    \<open>invariant_system\<close> and, extending it, \<open>forward_simulation\<close>.
  \<^item> \<open>Go_Strings\<close>: \<open>strings.ToLower\<close>, \<open>strings.Contains\<close>, decimal and duration printing, UTF-8.
  \<^item> \<open>Leader_Errors\<close> (\<open>error.go\<close>, \<open>classifyErrorType\<close> of \<open>logger.go\<close>): error values, those of
    foreign types with their own causes and \<open>Is\<close> answers included, unwrapping, \<open>errors.Is\<close> and
    \<open>errors.As\<close>, permanent and transient errors.
  \<^item> \<open>Leader_Config\<close> (\<open>ElectionConfig\<close> and \<open>StopOptions\<close> of \<open>election.go\<close>, \<open>validation.go\<close>).
  \<^item> \<open>Go_Json\<close> (\<open>leadershipPayload\<close> of \<open>kv_election.go\<close>): what \<open>encoding/json\<close> writes for the payload
    and what it reads from an arbitrary value, into the struct and into a map.
  \<^item> \<open>Key_Value\<close> (the store interface and the NATS adapters of \<open>election.go\<close>,
    \<open>internal/natsmock/keyvalue.go\<close>, \<open>connection.go\<close>, \<open>test_adapters.go\<close>): a store is a record of
    operations over a state; the locale \<open>kv_store\<close> states what the election relies on (creation of a
    vacant key, update at a revision, growing revisions, frames) and the in-memory store is shown to
    provide it.
  \<^item> \<open>Connection_Monitor\<close> (\<open>natsConnectionMonitor\<close> of \<open>connection.go\<close>).
  \<^item> \<open>Election_State\<close> (\<open>kv_election.go\<close>): the struct as a record, construction, \<open>becomeLeader\<close>,
    \<open>becomeFollower\<close>, \<open>Start\<close>, \<open>Stop\<close> and \<open>StopWithContext\<close> in the parts before and after their
    wait for the goroutines, with what happens during the wait as an argument, the getters; the locale
    \<open>demotion\<close> for the failure handlers, which are one routine with different reasons.
  \<^item> \<open>Acquire\<close> (\<open>attemptAcquire\<close>, \<open>attemptPriorityTakeover\<close>, \<open>attemptAcquireWithRetry\<close> of
    \<open>kv_election.go\<close>).
  \<^item> \<open>Fencing\<close> (\<open>validateToken\<close> and its wrappers in \<open>kv_election.go\<close>, \<open>fencing.go\<close>): also the shape of
    the ticker loops and the locale \<open>counted_loop\<close>, the loops that count failures in a row.
  \<^item> \<open>Heartbeat\<close> (\<open>heartbeat.go\<close>, \<open>health.go\<close>), \<open>Watcher_Loop\<close> (\<open>watcher.go\<close>), \<open>Disconnect\<close> (the
    grace period and the verification after a reconnect in \<open>connection.go\<close>).
  \<^item> \<open>Go_Float\<close>: Go's float64 arithmetic, as rationals rounded to 53 bits with infinities and NaN,
    \<open>math.Pow\<close> by the algorithm of the standard library, random numbers from their 53 bits;
    \<open>Backoff\<close> and \<open>Retry\<close> (\<open>retry.go\<close>): the length of a back-off, the retry loop, the
    circuit breaker; the function they run may return an error, succeed or panic.
  \<^item> \<open>Prometheus\<close> (\<open>metrics.go\<close>): the metric vectors with their labels, and the calls on them.
  \<^item> \<open>Lifecycle\<close>: one instance as a transition system over all its operations, the two halves of stopping
    and the answer to a \<open>Create\<close> as steps of their own, and the verification that ends with the lock held
    for ever (\<open>step_wedge\<close>); starting, stopping and races between them.
  \<^item> \<open>Takeover\<close>: how a watching follower takes over, and what a refused takeover does to an instance that
    believes it leads.
  \<^item> \<open>Cluster\<close>: any number of instances over one store, where the answer to a \<open>Create\<close> and the effect of an
    \<open>Update\<close> may come late; \<open>Lease\<close>: an abstract lock service, which the
    cluster refines.
  \<^item> \<open>Timing\<close> (\<open>chaos_test_helpers.go\<close>, the jitter of \<open>kv_election.go\<close>), \<open>Test_Support\<close>
    (\<open>test_helpers.go\<close>, \<open>embedded_nats_server.go\<close>).
  \<^item> \<open>Control_Manager\<close> (\<open>examples/control_manager/main.go\<close>): the tasks of a leader as an interleaving of
    goroutines; \<open>Example_Programs\<close> (\<open>cmd/demo/main.go\<close> and the \<open>main\<close> functions of both examples).

  \<^bold>\<open>State and operations.\<close> The record \<open>kvElection\<close> has the fields of the Go struct; a mutex is a flag
  (locking a locked one blocks), an atomic is its value, \<open>ctx\<close> and \<open>cancel\<close> are indices into the list
  of contexts created so far, \<open>gos\<close> lists the goroutines started, \<open>metrics\<close> the metrics calls and
  \<open>demoteCalls\<close> the demotion callbacks run. A \<open>world\<close> is an instance, its store and the number of
  tokens drawn; an operation maps a world to an outcome with the new world. Times are nanoseconds and
  arguments of the operations, as are the answers of the environment: the health check, whether an
  update answered in time, what others did meanwhile. Durations and \<open>int\<close> are 64-bit values with the
  wrap-around written out, revisions are \<open>64 word\<close>.

  \<^bold>\<open>What the lemmas show.\<close>
  \<^item> Errors, configuration and payload: exact characterisations of the classification and of the
    configuration check, and that reading inverts writing.
  \<^item> Acquisition: what a successful attempt has established, when an attempt returns at all, that a
    round of retries returns and how.
  \<^item> Loops: what one pass of the heartbeat, validation and watch loops decides, and after how many
    failures in a row a leader is demoted, not earlier and not later.
  \<^item> Connection: when the grace period demotes, and what a short outage leaves.
  \<^item> Lifecycle: an invariant of every reachable state of an instance, and the behaviour of starting
    and stopping on every branch, whatever happens while stopping waits.
  \<^item> Cluster: safety for every interleaving of complete operations of any number of instances without
    takeover. Of the leaders of one group at most one holds the stored revision; a new leader's
    revision is larger than every other leader's, or, after a late answer, no longer the stored one; as
    long as no key is lost there is at most one leader.
  \<^item> Lease: every reachable cluster state corresponds to a reachable state of a lock service with at most one
    holder per key, and every step to a taking of a free key, a renewal by the holder, a release or nothing.
  \<^item> Metrics: in every reachable state of an instance every call made carries the labels of its vector.
  \<^item> Retry: the breaker's counter is the number of failures in a row of the function it really ran; the retry
    loop ends, after every attempt it is allowed and for no other reason than the documented ones.
  \<^item> Back-off and timing: bounds on every back-off for all random draws, with rounding and overflow; the
    length of a round of acquisition, whose list of sleeps is shown to be that of the loop itself.
  \<^item> Helpers and programs: polling ends and decides; what becomes of the buckets and directories of an
    embedded server, where lookups and removals may fail and its directory may lie below the one made for
    it; the programs start and shut down.
  Several theorems state a behaviour the code does not intend, such as a verification that blocks on
  its own lock, an attempt that never returns, a stopped instance that leads, a refused takeover that
  lets the next heartbeat overwrite the winner, a task that waits for itself.

  \<^bold>\<open>Termination.\<close> No fuel is used. \<open>attemptAcquire\<close>, \<open>RetryWithBackoff\<close>, \<open>wait_loop\<close> and \<open>stop_wait\<close>
  may run for ever and are partial functions into \<open>option\<close>, where \<open>None\<close> means no return; theorems say
  when they return. A ticker loop is run on the finite list of its ticks, since it ends only by its context or a
  demotion.

  \<^bold>\<open>Not modelled.\<close> The NATS client and server behind the interfaces, the Prometheus client and the file
  system (parameters, with named laws where something is needed of them), UUID generation and random bits
  (parameters), log output and printing (only that computing a log line can panic), signal handling and the
  status tickers of the programs. Goroutines interleave between complete operations, except that what
  happens during the waits of stopping, at two points inside the heartbeat and between the retries of a
  round is an argument, and that writes and answers of the store may come late. Of foreign errors only the
  text, the causes and the answers of an \<open>Is\<close> method are modelled. The laws of the file system and of
  the server are those of \<open>files_ok\<close> and \<open>server_ok\<close> in \<open>Test_Support\<close>.

  \<^bold>\<open>Open.\<close> Clusters with priority takeover, finer interleavings of the heartbeat with other
  goroutines, and the accounting of callbacks along a run.
\<close>

end
